theory Spec2Isabelle
  imports Main "HOL-Library.Product_Lexorder" "HOL-Library.Sublist"
begin

section \<open>Stream records and the JavaScript values the code handles\<close>

text \<open>
  A record id of the stream store has the form \<open><ms-timestamp>-<sequence>\<close>. The store only
  ever hands out ids of this shape, so an id is modelled as the pair of its two numbers
  (ordered lexicographically, as the store orders them); \<open>id.split('-').map(Number)\<close>
  followed by taking the first element is then the first component. The numbers of an id
  are never negative; they are integers here, as the JavaScript numbers they are compared
  with and subtracted from, and assumed to stay below \<open>2^53\<close>, where those are exact.
\<close>

type_synonym stream_id = "int \<times> int"

text \<open>\<open>[id, fields]\<close>: one record with its flat key/value list.\<close>

type_synonym entry = "stream_id \<times> string list"

text \<open>\<open>type XReadGroupResult = [string, [string, string[]][]]\<close>: one stream of a reply.\<close>

type_synonym XReadGroupResult = "string \<times> entry list"

datatype error = Error string | SyntaxError string | TypeError string

definition message :: "error \<Rightarrow> string" where
  "message e = (case e of Error m \<Rightarrow> m | SyntaxError m \<Rightarrow> m | TypeError m \<Rightarrow> m)"

text \<open>\<open>tuple.length\<close> of an \<open>XReadGroupResult\<close>: the tuple has two components.\<close>

definition tuple_length :: "XReadGroupResult \<Rightarrow> nat" where
  "tuple_length r = 2"

text \<open>
  \<open>x || d\<close> on an optional number: \<open>undefined\<close> (here \<open>None\<close>) and \<open>0\<close> are falsy and
  give the default.
\<close>

definition or_default :: "'a::zero option \<Rightarrow> 'a \<Rightarrow> 'a" where
  "or_default x d = (case x of None \<Rightarrow> d | Some v \<Rightarrow> if v = 0 then d else v)"

text \<open>
  A JavaScript object built from a flat field list. Properties keep insertion order and an
  assignment to an existing key overwrites in place; a value is a string or \<open>undefined\<close>
  (\<open>None\<close>, what \<open>fields[i + 1]\<close> is past the end of an odd-length list).
\<close>

type_synonym 'v obj = "(string \<times> 'v) list"

fun obj_set :: "string \<Rightarrow> 'v \<Rightarrow> 'v obj \<Rightarrow> 'v obj" where
  "obj_set k v [] = [(k, v)]"
| "obj_set k v ((k', v') # kvs) =
     (if k = k' then (k, v) # kvs else (k', v') # obj_set k v kvs)"

text \<open>
  The loop \<open>for (let i = 0; i < fields.length; i += 2) jobData[fields[i]] = fields[i + 1]\<close>
  of \<open>Consumer.processMessages\<close>.
\<close>

fun fields_to_obj :: "string list \<Rightarrow> string option obj \<Rightarrow> string option obj" where
  "fields_to_obj [] obj = obj"
| "fields_to_obj [k] obj = obj_set k None obj"
| "fields_to_obj (k # v # rest) obj = fields_to_obj rest (obj_set k (Some v) obj)"

text \<open>
  Modelled from the spec: \<open>array2obj\<close> of \<open>../utils\<close>, which \<open>QueueEvents\<close> calls and the
  sources do not contain ("decode fields into an object"; for the consumer, "flatten fields
  into a key/value map"). It is taken to be the flattening that \<open>processMessages\<close> spells out.
\<close>

definition array2obj :: "string list \<Rightarrow> string option obj" where
  "array2obj arr = fields_to_obj arr []"

text \<open>\<open>obj[k]\<close>: \<open>undefined\<close> when the key is absent.\<close>

definition obj_get :: "string \<Rightarrow> string option obj \<Rightarrow> string option" where
  "obj_get k obj = (case map_of obj k of None \<Rightarrow> None | Some v \<Rightarrow> v)"

text \<open>The text \<open>JSON.parse\<close> sees: it converts its argument to a string first.\<close>

definition to_text :: "string option \<Rightarrow> string" where
  "to_text v = (case v of None \<Rightarrow> ''undefined'' | Some s \<Rightarrow> s)"

section \<open>The consumer group reader (\<open>src/classes/consumer.ts\<close>)\<close>

record ConsumerOptions =
  batchSize :: "nat option"
  blockTimeMs :: "nat option"
  maxRetentionMs :: "int option"
  trimIntervalMs :: "int option"

text \<open>The last argument of \<open>xreadgroup\<close>: \<open>'0'\<close> (this consumer's pending entries) or \<open>'>'\<close>.\<close>

datatype selector = PendingSel | NewSel

text \<open>
  Everything outside the class: the store client, the clock, \<open>JSON.parse\<close> and the closing
  signal of the base class, acting on a world state \<open>'w\<close>. A client command either throws
  (\<open>Inl\<close>, \<open>Some\<close>) or returns. The runtime serves one stream, one group and one consumer
  identity, so the stream, group and consumer names are not passed.
\<close>

record ('w, 'd) runtime =
  date_now :: "'w \<Rightarrow> int \<times> 'w"
  json_parse :: "string \<Rightarrow> 'd option"
  is_closing :: "'w \<Rightarrow> bool"
  get_client :: "'w \<Rightarrow> error option \<times> 'w"
  xgroup_create :: "'w \<Rightarrow> error option \<times> 'w"
  xreadgroup :: "nat \<Rightarrow> nat \<Rightarrow> selector \<Rightarrow> 'w \<Rightarrow> (error + XReadGroupResult list option) \<times> 'w"
  xack :: "stream_id \<Rightarrow> 'w \<Rightarrow> error option \<times> 'w"
  xrange_first :: "'w \<Rightarrow> (error + entry list) \<times> 'w"
  xtrim_minid :: "int \<Rightarrow> 'w \<Rightarrow> error option \<times> 'w"

text \<open>
  What the consumer did, in order: the commands it issued, the clock readings it took and
  the callback invocations (with the id of the record whose data was passed and whether
  the callback resolved).
\<close>

datatype call =
    DateNow int
  | XReadGroup selector nat nat
  | XAck stream_id
  | XRange
  | XTrim int
  | Callback stream_id bool

record 'w consumer =
  lastTrim :: int
  world :: 'w
  emitted :: "error list"
  calls :: "call list"

text \<open>
  Modelled from the spec: \<open>this.emit('error', e)\<close> of the base class, which the sources do not
  contain; the error is reported on the error channel and nothing is thrown.
\<close>

definition emit_error :: "error \<Rightarrow> 'w consumer \<Rightarrow> 'w consumer" where
  "emit_error e s = s\<lparr>emitted := emitted s @ [e]\<rparr>"

definition client_call :: "call \<Rightarrow> ('w \<Rightarrow> 'r \<times> 'w) \<Rightarrow> 'w consumer \<Rightarrow> 'r \<times> 'w consumer" where
  "client_call c op s =
     (case op (world s) of (r, w') \<Rightarrow> (r, s\<lparr>world := w', calls := calls s @ [c]\<rparr>))"

definition read_clock :: "('w, 'd) runtime \<Rightarrow> 'w consumer \<Rightarrow> int \<times> 'w consumer" where
  "read_clock rt s =
     (case date_now rt (world s) of
        (t, w') \<Rightarrow> (t, s\<lparr>world := w', calls := calls s @ [DateNow t]\<rparr>))"

definition run_callback ::
  "('d \<Rightarrow> 'w \<Rightarrow> error option \<times> 'w) \<Rightarrow> stream_id \<Rightarrow> 'd \<Rightarrow> 'w consumer
     \<Rightarrow> error option \<times> 'w consumer" where
  "run_callback cb i d s =
     (case cb d (world s) of
        (r, w') \<Rightarrow> (r, s\<lparr>world := w', calls := calls s @ [Callback i (r = None)]\<rparr>))"

subsection \<open>\<open>processMessages\<close>\<close>

text \<open>
  The body of the loop over the entries: flatten the fields, parse the \<open>data\<close> field
  (outside the \<open>try\<close>: a parse error leaves the function), then, inside the \<open>try\<close>, call the
  callback and acknowledge; anything thrown there goes to the error channel.
\<close>

definition process_record ::
  "('w, 'd) runtime \<Rightarrow> ('d \<Rightarrow> 'w \<Rightarrow> error option \<times> 'w) \<Rightarrow> entry \<Rightarrow> 'w consumer
     \<Rightarrow> (error + unit) \<times> 'w consumer" where
  "process_record rt cb e s =
     (let jobData = fields_to_obj (snd e) [] in
      case json_parse rt (to_text (obj_get ''data'' jobData)) of
        None \<Rightarrow> (Inl (SyntaxError (to_text (obj_get ''data'' jobData))), s)
      | Some d \<Rightarrow>
          (case run_callback cb (fst e) d s of
             (Some err, s1) \<Rightarrow> (Inr (), emit_error err s1)
           | (None, s1) \<Rightarrow>
               (case client_call (XAck (fst e)) (xack rt (fst e)) s1 of
                  (Some err, s2) \<Rightarrow> (Inr (), emit_error err s2)
                | (None, s2) \<Rightarrow> (Inr (), s2))))"

fun process_entries ::
  "('w, 'd) runtime \<Rightarrow> ('d \<Rightarrow> 'w \<Rightarrow> error option \<times> 'w) \<Rightarrow> entry list \<Rightarrow> 'w consumer
     \<Rightarrow> (error + unit) \<times> 'w consumer" where
  "process_entries rt cb [] s = (Inr (), s)"
| "process_entries rt cb (e # es) s =
     (case process_record rt cb e s of
        (Inl err, s') \<Rightarrow> (Inl err, s')
      | (Inr _, s') \<Rightarrow> process_entries rt cb es s')"

text \<open>\<open>const [, entries] = messages[0]\<close> throws a TypeError on an empty array.\<close>

definition processMessages ::
  "('w, 'd) runtime \<Rightarrow> ('d \<Rightarrow> 'w \<Rightarrow> error option \<times> 'w) \<Rightarrow> XReadGroupResult list
     \<Rightarrow> 'w consumer \<Rightarrow> (error + unit) \<times> 'w consumer" where
  "processMessages rt cb messages s =
     (case messages of
        [] \<Rightarrow> (Inl (TypeError ''undefined is not iterable''), s)
      | m # _ \<Rightarrow> process_entries rt cb (snd m) s)"

subsection \<open>\<open>trimStream\<close>\<close>

text \<open>
  \<open>now - this.consumerOpts.maxRetentionMs || 1000 * 60 * 60 * 24\<close> parses as
  \<open>(now - maxRetentionMs) || 86400000\<close>: the subtraction is \<open>NaN\<close> when the option is unset,
  and \<open>NaN\<close> and \<open>0\<close> are falsy.
\<close>

definition cutoffTime :: "int \<Rightarrow> int option \<Rightarrow> int" where
  "cutoffTime now m =
     (case m of
        None \<Rightarrow> 1000 * 60 * 60 * 24
      | Some r \<Rightarrow> if now - r = 0 then 1000 * 60 * 60 * 24 else now - r)"

definition trimStream ::
  "('w, 'd) runtime \<Rightarrow> ConsumerOptions \<Rightarrow> 'w consumer \<Rightarrow> (error + unit) \<times> 'w consumer" where
  "trimStream rt opts s =
     (case read_clock rt s of
        (t1, s1) \<Rightarrow>
          if lastTrim s1 + or_default (trimIntervalMs opts) 60000 > t1 then (Inr (), s1)
          else
            (case read_clock rt s1 of
               (t2, s2) \<Rightarrow>
                 (case get_client rt (world s2) of
                    (Some err, w3) \<Rightarrow> (Inl err, s2\<lparr>lastTrim := t2, world := w3\<rparr>)
                  | (None, w3) \<Rightarrow>
                      (case read_clock rt (s2\<lparr>lastTrim := t2, world := w3\<rparr>) of
                         (now, s4) \<Rightarrow>
                           (let cutoff = cutoffTime now (maxRetentionMs opts) in
                            case client_call XRange (xrange_first rt) s4 of
                              (Inl err, s5) \<Rightarrow> (Inl err, s5)
                            | (Inr oldestMessages, s5) \<Rightarrow>
                                (case oldestMessages of
                                   [] \<Rightarrow> (Inr (), s5)
                                 | m # _ \<Rightarrow>
                                     if fst (fst m) < cutoff
                                     then (case client_call (XTrim cutoff) (xtrim_minid rt cutoff) s5 of
                                             (Some err, s6) \<Rightarrow> (Inl err, s6)
                                           | (None, s6) \<Rightarrow> (Inr (), s6))
                                     else (Inr (), s5)))))))"

subsection \<open>The loop of \<open>consume\<close>\<close>

text \<open>
  The loop \<open>for (const [id] of entries)\<close> of the pending phase: a record within the retention
  is answered with \<open>processMessages\<close> on the whole \<open>pendingResult\<close>, an older one with \<open>xack\<close>.
\<close>

fun pending_loop ::
  "('w, 'd) runtime \<Rightarrow> ('d \<Rightarrow> 'w \<Rightarrow> error option \<times> 'w) \<Rightarrow> int \<Rightarrow> int
     \<Rightarrow> XReadGroupResult list \<Rightarrow> entry list \<Rightarrow> 'w consumer \<Rightarrow> (error + unit) \<times> 'w consumer" where
  "pending_loop rt cb now retention pendingResult [] s = (Inr (), s)"
| "pending_loop rt cb now retention pendingResult (e # es) s =
     (if now - fst (fst e) \<le> retention
      then (case processMessages rt cb pendingResult s of
              (Inl err, s') \<Rightarrow> (Inl err, s')
            | (Inr _, s') \<Rightarrow> pending_loop rt cb now retention pendingResult es s')
      else (case client_call (XAck (fst e)) (xack rt (fst e)) s of
              (Some err, s') \<Rightarrow> (Inl err, s')
            | (None, s') \<Rightarrow> pending_loop rt cb now retention pendingResult es s'))"

text \<open>Lines 89 to 106: the pending pass, entered once the guard on the reply holds.\<close>

definition pending_pass ::
  "('w, 'd) runtime \<Rightarrow> ConsumerOptions \<Rightarrow> ('d \<Rightarrow> 'w \<Rightarrow> error option \<times> 'w)
     \<Rightarrow> XReadGroupResult list \<Rightarrow> 'w consumer \<Rightarrow> (error + unit) \<times> 'w consumer" where
  "pending_pass rt opts cb pendingResult s =
     (case read_clock rt s of
        (now, s1) \<Rightarrow>
          (case pendingResult of
             [] \<Rightarrow> (Inl (TypeError ''undefined is not iterable''), s1)
           | m # _ \<Rightarrow>
               pending_loop rt cb now (or_default (maxRetentionMs opts) (1000 * 60 * 60 * 24))
                 pendingResult (snd m) s1))"

text \<open>
  The guard of the pending phase, on a reply that is not \<open>null\<close>:
  \<open>pendingResult.length > 1 && pendingResult[1].length > 0\<close>.
\<close>

definition pending_guard :: "XReadGroupResult list \<Rightarrow> bool" where
  "pending_guard pendingResult \<longleftrightarrow>
     length pendingResult > 1 \<and> tuple_length (pendingResult ! 1) > 0"

text \<open>
  The guard of the new-record phase, on a reply that is not \<open>null\<close>:
  \<open>newResult.length > 0 && newResult[0].length > 0\<close>.
\<close>

definition new_guard :: "XReadGroupResult list \<Rightarrow> bool" where
  "new_guard newResult \<longleftrightarrow> length newResult > 0 \<and> tuple_length (newResult ! 0) > 0"

text \<open>Lines 111 to 135: trim maintenance, then the read of new records and their processing.\<close>

definition new_phase ::
  "('w, 'd) runtime \<Rightarrow> ConsumerOptions \<Rightarrow> ('d \<Rightarrow> 'w \<Rightarrow> error option \<times> 'w)
     \<Rightarrow> 'w consumer \<Rightarrow> (error + unit) \<times> 'w consumer" where
  "new_phase rt opts cb s =
     (let count = or_default (batchSize opts) 1; block = or_default (blockTimeMs opts) 1000 in
      case trimStream rt opts s of
        (Inl err, s2) \<Rightarrow> (Inl err, s2)
      | (Inr _, s2) \<Rightarrow>
          (case client_call (XReadGroup NewSel count block)
                  (xreadgroup rt count block NewSel) s2 of
             (Inl err, s3) \<Rightarrow> (Inl err, s3)
           | (Inr None, s3) \<Rightarrow> (Inr (), s3)
           | (Inr (Some newResult), s3) \<Rightarrow>
               if new_guard newResult then processMessages rt cb newResult s3
               else (Inr (), s3)))"

text \<open>
  The body of the \<open>try\<close> of one loop iteration: the pending read; when its guard holds, the
  pending pass and \<open>continue\<close>; otherwise the new-record phase.
\<close>

definition iteration_body ::
  "('w, 'd) runtime \<Rightarrow> ConsumerOptions \<Rightarrow> ('d \<Rightarrow> 'w \<Rightarrow> error option \<times> 'w)
     \<Rightarrow> 'w consumer \<Rightarrow> (error + unit) \<times> 'w consumer" where
  "iteration_body rt opts cb s =
     (let count = or_default (batchSize opts) 1; block = or_default (blockTimeMs opts) 1000 in
      case client_call (XReadGroup PendingSel count block)
             (xreadgroup rt count block PendingSel) s of
        (Inl err, s1) \<Rightarrow> (Inl err, s1)
      | (Inr None, s1) \<Rightarrow> new_phase rt opts cb s1
      | (Inr (Some pendingResult), s1) \<Rightarrow>
          if pending_guard pendingResult then pending_pass rt opts cb pendingResult s1
          else new_phase rt opts cb s1)"

text \<open>One iteration: whatever the body throws is emitted on the error channel.\<close>

definition consume_iteration ::
  "('w, 'd) runtime \<Rightarrow> ConsumerOptions \<Rightarrow> ('d \<Rightarrow> 'w \<Rightarrow> error option \<times> 'w)
     \<Rightarrow> 'w consumer \<Rightarrow> 'w consumer" where
  "consume_iteration rt opts cb s =
     (case iteration_body rt opts cb s of
        (Inl err, s') \<Rightarrow> emit_error err s'
      | (Inr _, s') \<Rightarrow> s')"

text \<open>
  \<open>while (!this.closing) { ... }\<close>, run for at most \<open>n\<close> iterations: the result says whether the
  loop has ended (\<open>True\<close>) or is still running after \<open>n\<close> iterations.
\<close>

fun consume_loop ::
  "nat \<Rightarrow> ('w, 'd) runtime \<Rightarrow> ConsumerOptions \<Rightarrow> ('d \<Rightarrow> 'w \<Rightarrow> error option \<times> 'w)
     \<Rightarrow> 'w consumer \<Rightarrow> bool \<times> 'w consumer" where
  "consume_loop 0 rt opts cb s = (is_closing rt (world s), s)"
| "consume_loop (Suc n) rt opts cb s =
     (if is_closing rt (world s) then (True, s)
      else consume_loop n rt opts cb (consume_iteration rt opts cb s))"

text \<open>\<open>message.includes('BUSYGROUP')\<close>.\<close>

fun starts_with :: "string \<Rightarrow> string \<Rightarrow> bool" where
  "starts_with s [] = True"
| "starts_with [] (c # cs) = False"
| "starts_with (x # xs) (c # cs) = (x = c \<and> starts_with xs cs)"

fun includes_text :: "string \<Rightarrow> string \<Rightarrow> bool" where
  "includes_text [] t = (t = [])"
| "includes_text (x # xs) t = (starts_with (x # xs) t \<or> includes_text xs t)"

text \<open>
  \<open>consume\<close>: wait for the client, create the group (an error that mentions \<open>BUSYGROUP\<close> is
  ignored, any other ends the task on the error channel), then loop.
\<close>

definition consume ::
  "nat \<Rightarrow> ('w, 'd) runtime \<Rightarrow> ConsumerOptions \<Rightarrow> ('d \<Rightarrow> 'w \<Rightarrow> error option \<times> 'w)
     \<Rightarrow> 'w consumer \<Rightarrow> bool \<times> 'w consumer" where
  "consume n rt opts cb s =
     (case get_client rt (world s) of
        (Some err, w1) \<Rightarrow> (True, emit_error err (s\<lparr>world := w1\<rparr>))
      | (None, w1) \<Rightarrow>
          (case xgroup_create rt w1 of
             (Some err, w2) \<Rightarrow>
               if includes_text (message err) ''BUSYGROUP''
               then consume_loop n rt opts cb (s\<lparr>world := w2\<rparr>)
               else (True, emit_error err (s\<lparr>world := w2\<rparr>))
           | (None, w2) \<Rightarrow> consume_loop n rt opts cb (s\<lparr>world := w2\<rparr>)))"

section \<open>The stream store, as the consumer sees it\<close>

text \<open>
  Modelled from the spec: the stream store is an external service. Its state for one stream
  and one consumer of one group: the log in ascending id order, the id the group last
  delivered, the entries delivered to this consumer and not yet acknowledged, the clock, the
  closing signal, and the state the callback works on. A read with the pending selector
  returns the pending entries and never \<open>null\<close>; a read with the new selector delivers
  entries after the last delivered id and makes them pending (\<open>null\<close> when there are none);
  an acknowledgment removes the id from the pending entries (and does nothing when it is not
  there); a trim removes the entries of the log below the given id and leaves the pending
  entries alone. A reply carries one element per stream read, here one.
\<close>

record 'u store =
  key :: string
  stream :: "entry list"
  last_delivered :: "stream_id option"
  pel :: "entry list"
  clock :: int
  closed :: bool
  user :: 'u

text \<open>
  Modelled from the spec: \<open>readAsGroup\<close> with the selector "pending for this consumer" or
  "new only", bounded by the count.
\<close>

definition store_xreadgroup ::
  "nat \<Rightarrow> nat \<Rightarrow> selector \<Rightarrow> 'u store \<Rightarrow> (error + XReadGroupResult list option) \<times> 'u store" where
  "store_xreadgroup count block sel w =
     (case sel of
        PendingSel \<Rightarrow> (Inr (Some [(key w, take count (pel w))]), w)
      | NewSel \<Rightarrow>
          (let unseen = filter (\<lambda>e. case last_delivered w of None \<Rightarrow> True | Some i \<Rightarrow> i < fst e)
                          (stream w);
               batch = take count unseen
           in if batch = [] then (Inr None, w)
              else (Inr (Some [(key w, batch)]),
                    w\<lparr>pel := pel w @ batch, last_delivered := Some (fst (last batch))\<rparr>)))"

text \<open>Modelled from the spec: \<open>ack\<close>, "removing it from the pending set".\<close>

definition store_xack :: "stream_id \<Rightarrow> 'u store \<Rightarrow> error option \<times> 'u store" where
  "store_xack i w = (None, w\<lparr>pel := filter (\<lambda>e. fst e \<noteq> i) (pel w)\<rparr>)"

text \<open>Modelled from the spec: \<open>rangeScan\<close> with count 1, "used to find the oldest record".\<close>

definition store_xrange_first :: "'u store \<Rightarrow> (error + entry list) \<times> 'u store" where
  "store_xrange_first w = (Inr (take 1 (stream w)), w)"

text \<open>
  Modelled from the spec: \<open>trim(stream, minId)\<close>, "deletion of records below a given id", for
  the id \<open>cutoff-0\<close>.
\<close>

definition store_xtrim :: "int \<Rightarrow> 'u store \<Rightarrow> error option \<times> 'u store" where
  "store_xtrim cutoff w =
     (None, w\<lparr>stream := filter (\<lambda>e. \<not> fst (fst e) < cutoff) (stream w)\<rparr>)"

text \<open>
  Modelled from the spec: the store as the runtime of the consumer. Its commands do not fail,
  the clock stands still during an iteration, and the group exists.
\<close>

definition store_runtime :: "(string \<Rightarrow> 'd option) \<Rightarrow> ('u store, 'd) runtime" where
  "store_runtime parse =
     \<lparr>date_now = (\<lambda>w. (clock w, w)),
      json_parse = parse,
      is_closing = closed,
      get_client = (\<lambda>w. (None, w)),
      xgroup_create = (\<lambda>w. (None, w)),
      xreadgroup = store_xreadgroup,
      xack = store_xack,
      xrange_first = store_xrange_first,
      xtrim_minid = store_xtrim\<rparr>"

text \<open>A callback that only works on its own state.\<close>

definition user_callback ::
  "('d \<Rightarrow> 'u \<Rightarrow> error option \<times> 'u) \<Rightarrow> 'd \<Rightarrow> 'u store \<Rightarrow> error option \<times> 'u store" where
  "user_callback f d w = (case f d (user w) of (r, u') \<Rightarrow> (r, w\<lparr>user := u'\<rparr>))"

text \<open>
  A stand-in for \<open>JSON.parse\<close> on the texts used in the examples below: it accepts a
  non-empty string of decimal digits.
\<close>

definition digit_value :: "char \<Rightarrow> nat option" where
  "digit_value c =
     (let n = (of_char c :: nat) in if 48 \<le> n \<and> n \<le> 57 then Some (n - 48) else None)"

fun parse_digits :: "nat \<Rightarrow> string \<Rightarrow> nat option" where
  "parse_digits acc [] = Some acc"
| "parse_digits acc (c # cs) =
     (case digit_value c of None \<Rightarrow> None | Some d \<Rightarrow> parse_digits (10 * acc + d) cs)"

definition parse_number :: "string \<Rightarrow> nat option" where
  "parse_number s = (if s = [] then None else parse_digits 0 s)"

section \<open>The event stream listener (\<open>QueueEvents\<close>)\<close>

text \<open>The read position: \<open>'$'\<close> (only records appended from now on) or a record id.\<close>

datatype cursor = Dollar | At stream_id

text \<open>
  The options after the constructor has filled in \<open>blockingTimeout\<close>. An unset
  \<open>lastEventId\<close> is \<open>None\<close>.
\<close>

record QueueEventsOptions =
  lastEventId :: "stream_id option"
  blockingTimeout :: nat

text \<open>
  A property value of the decoded \<open>args\<close>: the text of a field, \<open>undefined\<close>, or what
  \<open>JSON.parse\<close> returned.
\<close>

datatype 'j jsvalue = Str string | Undefined | Json 'j

type_synonym StreamReadRaw = "(string \<times> entry list) list option"

text \<open>
  What the listener uses from outside: the closing signal, the client and its \<open>SETNAME\<close>
  command, the test \<open>clientCommandMessageReg\<close> on an error message, the read
  \<open>checkConnectionError(() => client.xread('BLOCK', timeout, 'STREAMS', key, id))\<close> as a
  whole, \<open>JSON.parse\<close>, and the truthiness and the text of a parsed value.
\<close>

record ('w, 'j) listener_runtime =
  ev_closing :: "'w \<Rightarrow> bool"
  ev_client :: "'w \<Rightarrow> error option \<times> 'w"
  client_setname :: "'w \<Rightarrow> error option \<times> 'w"
  clientCommandMessageReg :: "string \<Rightarrow> bool"
  xread :: "nat \<Rightarrow> cursor \<Rightarrow> 'w \<Rightarrow> (error + StreamReadRaw) \<times> 'w"
  ev_json_parse :: "string \<Rightarrow> 'j option"
  json_truthy :: "'j \<Rightarrow> bool"
  json_text :: "'j \<Rightarrow> string"

text \<open>
  What the listener did, in order: the assignments \<open>id = events[i][0]\<close> to its cursor and
  the calls \<open>this.emit(topic, ...args)\<close>.
\<close>

datatype 'j arg = ArgObj "'j jsvalue obj" | ArgId stream_id

datatype 'j action = SetCursor stream_id | Emit "'j jsvalue" "'j arg list"

record ('w, 'j) listener =
  running :: bool
  ev_world :: 'w
  actions :: "'j action list"

definition to_args :: "string option obj \<Rightarrow> 'j jsvalue obj" where
  "to_args obj = map (\<lambda>kv. (fst kv, case snd kv of None \<Rightarrow> Undefined | Some s \<Rightarrow> Str s)) obj"

definition get_prop :: "string \<Rightarrow> 'j jsvalue obj \<Rightarrow> 'j jsvalue" where
  "get_prop k obj = (case map_of obj k of None \<Rightarrow> Undefined | Some v \<Rightarrow> v)"

definition js_text :: "('w, 'j) listener_runtime \<Rightarrow> 'j jsvalue \<Rightarrow> string" where
  "js_text rt v = (case v of Str s \<Rightarrow> s | Undefined \<Rightarrow> ''undefined'' | Json j \<Rightarrow> json_text rt j)"

definition truthy :: "('w, 'j) listener_runtime \<Rightarrow> 'j jsvalue \<Rightarrow> bool" where
  "truthy rt v = (case v of Str s \<Rightarrow> s \<noteq> [] | Undefined \<Rightarrow> False | Json j \<Rightarrow> json_truthy rt j)"

text \<open>
  The \<open>switch (args.event)\<close>: the \<open>data\<close> of a \<open>progress\<close> event and the \<open>returnvalue\<close> of a
  \<open>completed\<close> event are replaced by their parsed value; a parse error is thrown.
\<close>

definition parse_prop ::
  "('w, 'j) listener_runtime \<Rightarrow> string \<Rightarrow> 'j jsvalue obj \<Rightarrow> error + 'j jsvalue obj" where
  "parse_prop rt k args =
     (case ev_json_parse rt (js_text rt (get_prop k args)) of
        None \<Rightarrow> Inl (SyntaxError (js_text rt (get_prop k args)))
      | Some j \<Rightarrow> Inr (obj_set k (Json j) args))"

definition decode :: "('w, 'j) listener_runtime \<Rightarrow> 'j jsvalue obj \<Rightarrow> error + 'j jsvalue obj" where
  "decode rt args =
     (if get_prop ''event'' args = Str ''progress'' then parse_prop rt ''data'' args
      else if get_prop ''event'' args = Str ''completed'' then parse_prop rt ''returnvalue'' args
      else Inr args)"

text \<open>
  Modelled from the spec: \<open>this.emit(topic, ...args)\<close>, which ends in the emitter of the base
  class; the emission is recorded.
\<close>

definition emit :: "'j jsvalue \<Rightarrow> 'j arg list \<Rightarrow> ('w, 'j) listener \<Rightarrow> ('w, 'j) listener" where
  "emit topic as s = s\<lparr>actions := actions s @ [Emit topic as]\<rparr>"

text \<open>
  \<open>const { event, ...restArgs } = args\<close> and the emissions: \<open>drained\<close> with the id alone,
  any other kind with \<open>restArgs\<close> and the id, and once more under \<open>event:jobId\<close> when
  \<open>restArgs.jobId\<close> is truthy.
\<close>

definition dispatch ::
  "('w, 'j) listener_runtime \<Rightarrow> stream_id \<Rightarrow> 'j jsvalue obj \<Rightarrow> ('w, 'j) listener
     \<Rightarrow> ('w, 'j) listener" where
  "dispatch rt i args s =
     (let event = get_prop ''event'' args;
          restArgs = filter (\<lambda>kv. fst kv \<noteq> ''event'') args
      in if event = Str ''drained'' then emit event [ArgId i] s
         else
           (let s1 = emit event [ArgObj restArgs, ArgId i] s
            in if truthy rt (get_prop ''jobId'' restArgs)
               then emit (Str (js_text rt event @ '':'' @ js_text rt (get_prop ''jobId'' restArgs)))
                      [ArgObj restArgs, ArgId i] s1
               else s1))"

text \<open>
  The loop \<open>for (let i = 0; i < events.length; i++)\<close>: the cursor is set to the record's id,
  then the record is decoded and dispatched. The result carries the cursor.
\<close>

fun process_events ::
  "('w, 'j) listener_runtime \<Rightarrow> entry list \<Rightarrow> cursor \<Rightarrow> ('w, 'j) listener
     \<Rightarrow> (error + unit) \<times> cursor \<times> ('w, 'j) listener" where
  "process_events rt [] c s = (Inr (), c, s)"
| "process_events rt (e # es) c s =
     (let s1 = s\<lparr>actions := actions s @ [SetCursor (fst e)]\<rparr> in
      case decode rt (to_args (array2obj (snd e))) of
        Inl err \<Rightarrow> (Inl err, At (fst e), s1)
      | Inr args \<Rightarrow> process_events rt es (At (fst e)) (dispatch rt (fst e) args s1))"

text \<open>
  \<open>while (!this.closing)\<close> of \<open>consumeEvents\<close>, run for at most \<open>n\<close> iterations: \<open>None\<close> when
  the loop is still running after them, otherwise how it ended. \<open>data[0]\<close> of an empty reply
  is \<open>undefined\<close>, and reading \<open>stream[1]\<close> from it throws.
\<close>

fun consumeEvents_loop ::
  "nat \<Rightarrow> ('w, 'j) listener_runtime \<Rightarrow> QueueEventsOptions \<Rightarrow> cursor \<Rightarrow> ('w, 'j) listener
     \<Rightarrow> (error + unit) option \<times> cursor \<times> ('w, 'j) listener" where
  "consumeEvents_loop 0 rt opts c s =
     (if ev_closing rt (ev_world s) then (Some (Inr ()), c, s) else (None, c, s))"
| "consumeEvents_loop (Suc n) rt opts c s =
     (if ev_closing rt (ev_world s) then (Some (Inr ()), c, s)
      else
        (case xread rt (blockingTimeout opts) c (ev_world s) of
           (Inl err, w1) \<Rightarrow> (Some (Inl err), c, s\<lparr>ev_world := w1\<rparr>)
         | (Inr None, w1) \<Rightarrow> consumeEvents_loop n rt opts c (s\<lparr>ev_world := w1\<rparr>)
         | (Inr (Some data), w1) \<Rightarrow>
             (case data of
                [] \<Rightarrow> (Some (Inl (TypeError ''Cannot read properties of undefined'')), c,
                       s\<lparr>ev_world := w1\<rparr>)
              | st # _ \<Rightarrow>
                  (case process_events rt (snd st) c (s\<lparr>ev_world := w1\<rparr>) of
                     (Inl err, c', s2) \<Rightarrow> (Some (Inl err), c', s2)
                   | (Inr _, c', s2) \<Rightarrow> consumeEvents_loop n rt opts c' s2))))"

text \<open>\<open>let id = opts.lastEventId || '$'\<close>, then the loop.\<close>

definition consumeEvents ::
  "nat \<Rightarrow> ('w, 'j) listener_runtime \<Rightarrow> QueueEventsOptions \<Rightarrow> ('w, 'j) listener
     \<Rightarrow> (error + unit) option \<times> cursor \<times> ('w, 'j) listener" where
  "consumeEvents n rt opts s =
     consumeEvents_loop n rt opts (case lastEventId opts of None \<Rightarrow> Dollar | Some i \<Rightarrow> At i) s"

text \<open>
  \<open>run\<close>: a listener that is not running sets \<open>running\<close>, names its connection (an error
  that \<open>clientCommandMessageReg\<close> matches is ignored) and consumes events; any error resets
  \<open>running\<close> and is thrown again. A running listener throws at once.
\<close>

definition run_consume ::
  "nat \<Rightarrow> ('w, 'j) listener_runtime \<Rightarrow> QueueEventsOptions \<Rightarrow> ('w, 'j) listener
     \<Rightarrow> (error + unit) option \<times> ('w, 'j) listener" where
  "run_consume n rt opts s =
     (case consumeEvents n rt opts s of
        (Some (Inl err), c, s') \<Rightarrow> (Some (Inl err), s'\<lparr>running := False\<rparr>)
      | (r, c, s') \<Rightarrow> (r, s'))"

definition run ::
  "nat \<Rightarrow> ('w, 'j) listener_runtime \<Rightarrow> QueueEventsOptions \<Rightarrow> ('w, 'j) listener
     \<Rightarrow> (error + unit) option \<times> ('w, 'j) listener" where
  "run n rt opts s =
     (if \<not> running s then
        (case ev_client rt (ev_world s) of
           (Some err, w1) \<Rightarrow> (Some (Inl err), s\<lparr>running := False, ev_world := w1\<rparr>)
         | (None, w1) \<Rightarrow>
             (case client_setname rt w1 of
                (Some err, w2) \<Rightarrow>
                  if clientCommandMessageReg rt (message err)
                  then run_consume n rt opts (s\<lparr>running := True, ev_world := w2\<rparr>)
                  else (Some (Inl err), s\<lparr>running := False, ev_world := w2\<rparr>)
              | (None, w2) \<Rightarrow> run_consume n rt opts (s\<lparr>running := True, ev_world := w2\<rparr>)))
      else (Some (Inl (Error ''Queue Events is already running.'')), s))"

section \<open>The event log, as the listener sees it\<close>

text \<open>
  Modelled from the spec: the raw read of the stream store ("blocking-read records after the
  cursor"; a stream is an "append-only ordered log of records addressed by a monotonically
  increasing id"). The state is the log so far and, for each coming read, the records that
  producers append while that read is under way. A read from an id returns every record of
  the log after that id; a read from \<open>'$'\<close> returns the records appended during the read;
  with nothing to return the read times out with \<open>null\<close>.
\<close>

record event_store =
  ev_key :: string
  ev_log :: "entry list"
  incoming :: "entry list list"
  ev_closed :: bool

definition store_xread :: "nat \<Rightarrow> cursor \<Rightarrow> event_store \<Rightarrow> (error + StreamReadRaw) \<times> event_store" where
  "store_xread block c w =
     (let arrived = (case incoming w of [] \<Rightarrow> [] | b # _ \<Rightarrow> b);
          found = (case c of
                     Dollar \<Rightarrow> arrived
                   | At i \<Rightarrow> filter (\<lambda>e. i < fst e) (ev_log w @ arrived))
      in (Inr (if found = [] then None else Some [(ev_key w, found)]),
          w\<lparr>ev_log := ev_log w @ arrived, incoming := tl (incoming w)\<rparr>))"

text \<open>
  Modelled from the spec: the event log as the runtime of the listener. Its commands do not
  fail; parsed values are taken as truthy objects.
\<close>

definition event_runtime :: "(string \<Rightarrow> 'j option) \<Rightarrow> (event_store, 'j) listener_runtime" where
  "event_runtime parse =
     \<lparr>ev_closing = ev_closed,
      ev_client = (\<lambda>w. (None, w)),
      client_setname = (\<lambda>w. (None, w)),
      clientCommandMessageReg = (\<lambda>m. False),
      xread = store_xread,
      ev_json_parse = parse,
      json_truthy = (\<lambda>j. True),
      json_text = (\<lambda>j. ''[object Object]'')\<rparr>"

section \<open>Example inputs\<close>

definition default_options :: ConsumerOptions where
  "default_options =
     \<lparr>batchSize = None, blockTimeMs = None, maxRetentionMs = None, trimIntervalMs = None\<rparr>"

text \<open>A callback that always resolves and counts its invocations.\<close>

definition counting_callback :: "nat \<Rightarrow> nat store \<Rightarrow> error option \<times> nat store" where
  "counting_callback = user_callback (\<lambda>d u. (None, Suc u))"

text \<open>A callback that always rejects.\<close>

definition failing_callback :: "nat \<Rightarrow> nat store \<Rightarrow> error option \<times> nat store" where
  "failing_callback = user_callback (\<lambda>d u. (Some (Error ''callback failed''), Suc u))"

definition fresh_consumer :: "'w \<Rightarrow> 'w consumer" where
  "fresh_consumer w = \<lparr>lastTrim = 0, world = w, emitted = [], calls = []\<rparr>"

text \<open>One record is pending (one second old), another one has not been delivered yet.\<close>

definition backlog_store :: "nat store" where
  "backlog_store =
     \<lparr>key = ''jobs'',
      stream = [((1699999999000, 0), [''data'', ''1'']), ((1699999999500, 0), [''data'', ''2''])],
      last_delivered = Some (1699999999000, 0),
      pel = [((1699999999000, 0), [''data'', ''1''])],
      clock = 1700000000000, closed = False, user = 0\<rparr>"

text \<open>One record is pending and far older than a day.\<close>

definition stale_store :: "nat store" where
  "stale_store =
     \<lparr>key = ''jobs'',
      stream = [((1600000000000, 0), [''data'', ''1''])],
      last_delivered = Some (1600000000000, 0),
      pel = [((1600000000000, 0), [''data'', ''1''])],
      clock = 1700000000000, closed = False, user = 0\<rparr>"

text \<open>Two records are pending, the first far older than a day, the second one second old.\<close>

definition mixed_store :: "nat store" where
  "mixed_store =
     \<lparr>key = ''jobs'',
      stream = [((1600000000000, 0), [''data'', ''1'']), ((1699999999000, 0), [''data'', ''2''])],
      last_delivered = Some (1699999999000, 0),
      pel = [((1600000000000, 0), [''data'', ''1'']), ((1699999999000, 0), [''data'', ''2''])],
      clock = 1700000000000, closed = False, user = 0\<rparr>"

text \<open>A reply with those two records that passes the guard of the pending phase.\<close>

definition mixed_batch :: "XReadGroupResult list" where
  "mixed_batch =
     [(''jobs'', [((1600000000000, 0), [''data'', ''1'']), ((1699999999000, 0), [''data'', ''2''])]),
      (''jobs'', [])]"

text \<open>
  The clock stands a little more than a day after the epoch and the retention is unset; the
  only record is younger than a day.
\<close>

definition early_store :: "nat store" where
  "early_store =
     \<lparr>key = ''jobs'',
      stream = [((50000000, 0), [''data'', ''1''])],
      last_delivered = None,
      pel = [],
      clock = 100000000, closed = False, user = 0\<rparr>"

definition listener_options :: QueueEventsOptions where
  "listener_options = \<lparr>lastEventId = Some (1699999999000, 0), blockingTimeout = 10000\<rparr>"

definition event_log_store :: event_store where
  "event_log_store =
     \<lparr>ev_key = ''bull:jobs:events'',
      ev_log = [((1699999998000, 0), [''event'', ''waiting'', ''jobId'', ''7'']),
                ((1699999999000, 0), [''event'', ''active'', ''jobId'', ''7''])],
      incoming = [[((1699999999500, 0), [''event'', ''completed'', ''jobId'', ''7'',
                                          ''returnvalue'', ''42''])],
                  [],
                  [((1699999999700, 0), [''event'', ''drained''])]],
      ev_closed = False\<rparr>"

definition running_listener :: "(event_store, nat) listener" where
  "running_listener = \<lparr>running = True, ev_world = event_log_store, actions = []\<rparr>"

definition idle_listener :: "(event_store, nat) listener" where
  "idle_listener = \<lparr>running = False, ev_world = event_log_store, actions = []\<rparr>"


text \<open>Three records wait for delivery; the \<open>data\<close> of the second is not JSON.\<close>

definition garbled_store :: "nat store" where
  "garbled_store =
     \<lparr>key = ''jobs'',
      stream = [((1699999999000, 0), [''data'', ''1'']),
                ((1699999999200, 0), [''data'', ''{bad'']),
                ((1699999999400, 0), [''data'', ''3''])],
      last_delivered = None,
      pel = [],
      clock = 1700000000000, closed = False, user = 0\<rparr>"

definition batch_options :: ConsumerOptions where
  "batch_options = default_options\<lparr>batchSize := Some 3\<rparr>"

text \<open>Two records wait for delivery; nothing is pending.\<close>

definition unread_store :: "nat store" where
  "unread_store =
     \<lparr>key = ''jobs'',
      stream = [((1699999999000, 0), [''data'', ''1'']), ((1699999999500, 0), [''data'', ''2''])],
      last_delivered = None,
      pel = [],
      clock = 1700000000000, closed = False, user = 0\<rparr>"


text \<open>
  An event log on which two records arrive during the first read; the second is a
  \<open>completed\<close> record without a \<open>returnvalue\<close> field.
\<close>

definition faulty_event_store :: event_store where
  "faulty_event_store =
     \<lparr>ev_key = ''bull:jobs:events'',
      ev_log = [((1699999999000, 0), [''event'', ''waiting'', ''jobId'', ''7''])],
      incoming = [[((1699999999500, 0), [''event'', ''active'', ''jobId'', ''7'']),
                   ((1699999999600, 0), [''event'', ''completed'', ''jobId'', ''7''])]],
      ev_closed = False\<rparr>"

definition restarted_listener :: "(event_store, nat) listener" where
  "restarted_listener = \<lparr>running = False, ev_world = faulty_event_store, actions = []\<rparr>"

text \<open>
  An event log on which a \<open>completed\<close> record and a \<open>drained\<close> record arrive during the
  first read.
\<close>

definition drained_event_store :: event_store where
  "drained_event_store =
     \<lparr>ev_key = ''bull:jobs:events'',
      ev_log = [((1699999999000, 0), [''event'', ''active'', ''jobId'', ''7''])],
      incoming = [[((1699999999500, 0), [''event'', ''completed'', ''jobId'', ''7'',
                                          ''returnvalue'', ''42'']),
                   ((1699999999600, 0), [''event'', ''drained''])]],
      ev_closed = False\<rparr>"

definition drained_listener :: "(event_store, nat) listener" where
  "drained_listener = \<lparr>running = True, ev_world = drained_event_store, actions = []\<rparr>"

section \<open>Notions used in the properties\<close>

text \<open>The \<open>data\<close> field of a record is not valid JSON: \<open>JSON.parse\<close> throws on it.\<close>

definition bad_data :: "('w, 'd) runtime \<Rightarrow> entry \<Rightarrow> bool" where
  "bad_data rt r \<longleftrightarrow>
     json_parse rt (to_text (obj_get ''data'' (fields_to_obj (snd r) []))) = None"

text \<open>The event kind and the job id a record carries in its fields, if any.\<close>

definition event_kind :: "string list \<Rightarrow> string option" where
  "event_kind fs = obj_get ''event'' (array2obj fs)"

definition job_id :: "string list \<Rightarrow> string option" where
  "job_id fs = obj_get ''jobId'' (array2obj fs)"

definition as_value :: "string option \<Rightarrow> 'j jsvalue" where
  "as_value v = (case v of None \<Rightarrow> Undefined | Some s \<Rightarrow> Str s)"

text \<open>
  What the consumer relies on from the store, for a set of pending ids read off the world
  state: an acknowledgment removes at most the acknowledged id from the pending set, and
  nothing else the consumer calls (the clock, the client, the reads, the range scan, the
  trim, the callback) removes any.
\<close>

definition store_contract ::
  "('w, 'd) runtime \<Rightarrow> ('d \<Rightarrow> 'w \<Rightarrow> error option \<times> 'w) \<Rightarrow> ('w \<Rightarrow> stream_id set) \<Rightarrow> bool" where
  "store_contract rt cb pending \<longleftrightarrow>
     (\<forall>w. pending w \<subseteq> pending (snd (date_now rt w))) \<and>
     (\<forall>w. pending w \<subseteq> pending (snd (get_client rt w))) \<and>
     (\<forall>c b sel w. pending w \<subseteq> pending (snd (xreadgroup rt c b sel w))) \<and>
     (\<forall>i w. pending w - {i} \<subseteq> pending (snd (xack rt i w))) \<and>
     (\<forall>w. pending w \<subseteq> pending (snd (xrange_first rt w))) \<and>
     (\<forall>m w. pending w \<subseteq> pending (snd (xtrim_minid rt m w))) \<and>
     (\<forall>d w. pending w \<subseteq> pending (snd (cb d w)))"

text \<open>
  On a list of calls with the latest first: the latest clock reading, and whether every
  acknowledgment is justified, that is, comes directly after a resolved callback on the
  same record, or is for a record older than the retention at the latest clock reading.
\<close>

fun last_reading :: "call list \<Rightarrow> int option" where
  "last_reading [] = None"
| "last_reading (DateNow t # cs) = Some t"
| "last_reading (c # cs) = last_reading cs"

fun acks_justified :: "int \<Rightarrow> call list \<Rightarrow> bool" where
  "acks_justified retention [] = True"
| "acks_justified retention (XAck i # cs) =
     (((case cs of Callback j ok # _ \<Rightarrow> j = i \<and> ok | _ \<Rightarrow> False)
       \<or> (case last_reading cs of Some now \<Rightarrow> retention < now - fst i | None \<Rightarrow> False))
      \<and> acks_justified retention cs)"
| "acks_justified retention (c # cs) = acks_justified retention cs"

text \<open>
  A stretch of execution from \<open>s\<close> to \<open>s'\<close> that only adds calls, lets an id leave the pending
  set only by an acknowledgment it issued, and keeps the acknowledgments justified.
\<close>

definition step_ok :: "('w \<Rightarrow> stream_id set) \<Rightarrow> int \<Rightarrow> 'w consumer \<Rightarrow> 'w consumer \<Rightarrow> bool" where
  "step_ok pending retention s s' \<longleftrightarrow>
     (\<exists>new. calls s' = calls s @ new
        \<and> (\<forall>i \<in> pending (world s). i \<in> pending (world s') \<or> XAck i \<in> set new))
     \<and> (acks_justified retention (rev (calls s)) \<longrightarrow> acks_justified retention (rev (calls s')))"

text \<open>The ids the listener's cursor was set to, in order.\<close>

fun cursor_history :: "'j action list \<Rightarrow> stream_id list" where
  "cursor_history [] = []"
| "cursor_history (SetCursor i # as) = i # cursor_history as"
| "cursor_history (Emit t args # as) = cursor_history as"

text \<open>Every emission carries the id the cursor was last set to.\<close>

fun emits_carry_cursor :: "stream_id option \<Rightarrow> 'j action list \<Rightarrow> bool" where
  "emits_carry_cursor c [] = True"
| "emits_carry_cursor c (SetCursor i # as) = emits_carry_cursor (Some i) as"
| "emits_carry_cursor c (Emit t args # as) =
     (list_all (\<lambda>a. case a of ArgId i \<Rightarrow> c = Some i | ArgObj _ \<Rightarrow> True) args
      \<and> emits_carry_cursor c as)"

text \<open>The ids of a list of records increase strictly, as the ids of a stream do.\<close>

definition ids_ascending :: "entry list \<Rightarrow> bool" where
  "ids_ascending es \<longleftrightarrow> sorted_wrt (<) (map fst es)"


text \<open>
  Modelled from the spec: "JSON-decode known fields (progress payload, completion return
  value) from serialized text into their structured value; all other fields remain text."
  The field of a record that is decoded, whether its text decodes, and the error when it
  does not.
\<close>

definition parsed_field :: "string list \<Rightarrow> string option" where
  "parsed_field fs =
     (if event_kind fs = Some ''progress'' then Some ''data''
      else if event_kind fs = Some ''completed'' then Some ''returnvalue''
      else None)"

definition decodes :: "('w, 'j) listener_runtime \<Rightarrow> entry \<Rightarrow> bool" where
  "decodes rt e =
     (case parsed_field (snd e) of
        None \<Rightarrow> True
      | Some k \<Rightarrow> ev_json_parse rt (to_text (obj_get k (array2obj (snd e)))) \<noteq> None)"

definition parse_failure :: "entry \<Rightarrow> error" where
  "parse_failure e =
     SyntaxError (case parsed_field (snd e) of
                    None \<Rightarrow> []
                  | Some k \<Rightarrow> to_text (obj_get k (array2obj (snd e))))"

text \<open>
  Modelled from the spec: "Separate the event-kind field from the remaining payload." The
  payload of a record: its fields as an object, the decoded field replaced by its value,
  without the event kind.
\<close>

definition payload :: "('w, 'j) listener_runtime \<Rightarrow> entry \<Rightarrow> 'j jsvalue obj" where
  "payload rt e =
     filter (\<lambda>kv. fst kv \<noteq> ''event'')
       (case parsed_field (snd e) of
          None \<Rightarrow> to_args (array2obj (snd e))
        | Some k \<Rightarrow>
            (case ev_json_parse rt (to_text (obj_get k (array2obj (snd e)))) of
               None \<Rightarrow> to_args (array2obj (snd e))
             | Some j \<Rightarrow> obj_set k (Json j) (to_args (array2obj (snd e)))))"

text \<open>
  Modelled from the spec: "if kind is the literal "drained", emit only \<open>(id)\<close> - no payload
  object. Otherwise emit \<open>(payload, id)\<close> under the bare kind, and, only if the payload
  carries an entity identifier, emit the same \<open>(payload, id)\<close> again under a composed
  "kind:entityId" topic." A record carries a job id when it has a \<open>jobId\<close> field that is
  not the empty string.
\<close>

definition record_emissions :: "('w, 'j) listener_runtime \<Rightarrow> entry \<Rightarrow> 'j action list" where
  "record_emissions rt e =
     (if event_kind (snd e) = Some ''drained'' then [Emit (Str ''drained'') [ArgId (fst e)]]
      else Emit (as_value (event_kind (snd e))) [ArgObj (payload rt e), ArgId (fst e)] #
           (if job_id (snd e) \<noteq> None \<and> job_id (snd e) \<noteq> Some []
            then [Emit (Str (to_text (event_kind (snd e)) @ '':'' @ to_text (job_id (snd e))))
                    [ArgObj (payload rt e), ArgId (fst e)]]
            else []))"

text \<open>
  Modelled from the spec: what handling one record adds to the actions (the cursor is set to
  its id, then the emissions follow), the cursor after a batch, and what handling a batch
  comes to: every record is handled in order; at the first record that does not decode the
  cursor is set to its id and the batch ends with the error, nothing being emitted for that
  record or for the records after it.
\<close>

definition handled :: "('w, 'j) listener_runtime \<Rightarrow> entry \<Rightarrow> 'j action list" where
  "handled rt e = SetCursor (fst e) # record_emissions rt e"

definition batch_cursor :: "cursor \<Rightarrow> entry list \<Rightarrow> cursor" where
  "batch_cursor c es = (if es = [] then c else At (fst (last es)))"

definition expected_batch ::
  "('w, 'j) listener_runtime \<Rightarrow> entry list \<Rightarrow> cursor \<Rightarrow> ('w, 'j) listener
     \<Rightarrow> (error + unit) \<times> cursor \<times> ('w, 'j) listener" where
  "expected_batch rt es c s =
     (case dropWhile (decodes rt) es of
        [] \<Rightarrow> (Inr (), batch_cursor c es,
               s\<lparr>actions := actions s @ concat (map (handled rt) es)\<rparr>)
      | bad # post \<Rightarrow>
          (Inl (parse_failure bad), At (fst bad),
           s\<lparr>actions := actions s @ concat (map (handled rt) (takeWhile (decodes rt) es))
                          @ [SetCursor (fst bad)]\<rparr>))"

section \<open>Unfolding the model on concrete inputs\<close>

lemmas consumer_defs =
  consume_iteration_def iteration_body_def pending_pass_def new_phase_def trimStream_def
  processMessages_def process_record_def pending_guard_def new_guard_def tuple_length_def
  client_call_def read_clock_def run_callback_def emit_error_def or_default_def cutoffTime_def
  to_text_def obj_get_def Let_def

lemmas store_defs =
  store_runtime_def store_xreadgroup_def store_xack_def store_xrange_first_def store_xtrim_def
  user_callback_def parse_number_def digit_value_def

section \<open>The consumer: pending before new, stale records\<close>

text \<open>
  When the reply to the pending read passes the guard, the iteration is the pending pass on
  that reply: the new-record phase is not entered.
\<close>

lemma guarded_reply_skips_new_phase:
  assumes "xreadgroup rt (or_default (batchSize opts) 1) (or_default (blockTimeMs opts) 1000)
             PendingSel (world s) = (Inr (Some pendingResult), w1)"
    and "pending_guard pendingResult"
  shows "iteration_body rt opts cb s =
           pending_pass rt opts cb pendingResult
             (s\<lparr>world := w1,
                calls := calls s @ [XReadGroup PendingSel (or_default (batchSize opts) 1)
                                     (or_default (blockTimeMs opts) 1000)]\<rparr>)"
  using assms by (simp add: iteration_body_def client_call_def Let_def)

text \<open>The reply to a pending read of the store never passes the guard.\<close>

lemma store_reply_fails_guard:
  "xreadgroup (store_runtime parse) count block PendingSel w = (Inr (Some pendingResult), w')
   \<Longrightarrow> \<not> pending_guard pendingResult"
  by (auto simp: store_runtime_def store_xreadgroup_def pending_guard_def)

text \<open>
  C1. The claim: an iteration of \<open>consume\<close> whose pending read returns at least one record
  handles the pending records and skips the new-record phase. The code does not do so: its
  guard asks for a reply of more than one element, and the reply to a read of one stream has
  one. With one record pending and one record not yet delivered, the pending read returns
  the pending record, the iteration goes on to trim and to read new records, processes and
  acknowledges the new record, and the pending record is still pending afterwards.
\<close>

theorem pending_record_not_handled_before_new:
  "xreadgroup (store_runtime parse_number) 1 1000 PendingSel backlog_store =
     (Inr (Some [(''jobs'', [((1699999999000, 0), [''data'', ''1''])])]), backlog_store)
   \<and> calls (consume_iteration (store_runtime parse_number) default_options counting_callback
              (fresh_consumer backlog_store)) =
       [XReadGroup PendingSel 1 1000, DateNow 1700000000000, DateNow 1700000000000,
        DateNow 1700000000000, XRange, XReadGroup NewSel 1 1000,
        Callback (1699999999500, 0) True, XAck (1699999999500, 0)]
   \<and> pel (world (consume_iteration (store_runtime parse_number) default_options
                    counting_callback (fresh_consumer backlog_store))) =
       [((1699999999000, 0), [''data'', ''1''])]"
  by (simp add: consumer_defs store_defs default_options_def counting_callback_def
        fresh_consumer_def backlog_store_def)

text \<open>
  C3. The claim: a pending record older than the retention is acknowledged at once and the
  callback is never invoked on it, also when the batch holds fresh records. The code does
  neither: (a) a pending read of one stream does not pass the guard, so the stale record is
  not acknowledged at all; (b) on a reply that passes the guard, a fresh record is answered
  with \<open>processMessages\<close> on the whole batch, which invokes the callback on the stale record
  of the same batch.
\<close>

theorem stale_pending_record_not_discarded:
  "calls (consume_iteration (store_runtime parse_number) default_options counting_callback
            (fresh_consumer stale_store)) =
     [XReadGroup PendingSel 1 1000, DateNow 1700000000000, DateNow 1700000000000,
      DateNow 1700000000000, XRange, XReadGroup NewSel 1 1000]
   \<and> pel (world (consume_iteration (store_runtime parse_number) default_options
                    counting_callback (fresh_consumer stale_store))) =
       [((1600000000000, 0), [''data'', ''1''])]
   \<and> pending_guard mixed_batch
   \<and> calls (snd (pending_pass (store_runtime parse_number) default_options counting_callback
                   mixed_batch (fresh_consumer mixed_store))) =
       [DateNow 1700000000000, XAck (1600000000000, 0),
        Callback (1600000000000, 0) True, XAck (1600000000000, 0),
        Callback (1699999999000, 0) True, XAck (1699999999000, 0)]"
  by (simp add: consumer_defs store_defs default_options_def counting_callback_def
        fresh_consumer_def stale_store_def mixed_store_def mixed_batch_def)

text \<open>Acknowledging an id again, or an id that is not pending, changes nothing in the store.\<close>

lemma store_xack_idempotent:
  "snd (store_xack i (snd (store_xack i w))) = snd (store_xack i w)"
  by (simp add: store_xack_def)



section \<open>The consumer: records stay pending until acknowledged\<close>

lemma step_ok_refl: "step_ok P ret s s"
  by (simp add: step_ok_def)

lemma step_ok_trans:
  assumes "step_ok P ret s s'" and "step_ok P ret s' s''"
  shows "step_ok P ret s s''"
proof -
  from assms(1) obtain n1 where n1: "calls s' = calls s @ n1"
    "\<forall>i \<in> P (world s). i \<in> P (world s') \<or> XAck i \<in> set n1"
    by (auto simp: step_ok_def)
  from assms(2) obtain n2 where n2: "calls s'' = calls s' @ n2"
    "\<forall>i \<in> P (world s'). i \<in> P (world s'') \<or> XAck i \<in> set n2"
    by (auto simp: step_ok_def)
  have "calls s'' = calls s @ (n1 @ n2)" using n1 n2 by simp
  moreover have "\<forall>i \<in> P (world s). i \<in> P (world s'') \<or> XAck i \<in> set (n1 @ n2)"
    using n1 n2 by auto
  ultimately have "\<exists>new. calls s'' = calls s @ new
        \<and> (\<forall>i \<in> P (world s). i \<in> P (world s'') \<or> XAck i \<in> set new)" by blast
  with assms show ?thesis by (simp add: step_ok_def)
qed

lemma step_ok_same_calls:
  "calls s' = calls s \<Longrightarrow> P (world s) \<subseteq> P (world s') \<Longrightarrow> step_ok P ret s s'"
  by (auto simp: step_ok_def)

lemma acks_justified_other: "\<forall>i. c \<noteq> XAck i \<Longrightarrow> acks_justified ret (c # cs) = acks_justified ret cs"
  by (cases c) auto

lemma step_ok_one_call:
  "calls s' = calls s @ [c] \<Longrightarrow> \<forall>i. c \<noteq> XAck i \<Longrightarrow> P (world s) \<subseteq> P (world s') \<Longrightarrow>
   step_ok P ret s s'"
  by (auto simp: step_ok_def acks_justified_other)

lemma step_ok_emit_error: "step_ok P ret s (emit_error e s)"
  by (simp add: step_ok_same_calls emit_error_def)

lemma step_ok_client_call:
  assumes "\<forall>w. P w \<subseteq> P (snd (op w))" and "\<forall>i. c \<noteq> XAck i"
  shows "step_ok P ret s (snd (client_call c op s))"
proof -
  obtain r w' where o: "op (world s) = (r, w')" by (cases "op (world s)")
  with assms(1) have "P (world s) \<subseteq> P w'" by (metis snd_conv)
  with o assms(2) show ?thesis
    by (simp add: client_call_def step_ok_one_call)
qed

lemma step_ok_read_clock:
  assumes "store_contract rt cb P"
  shows "step_ok P ret s (snd (read_clock rt s))"
proof -
  obtain t w' where o: "date_now rt (world s) = (t, w')" by (cases "date_now rt (world s)")
  with assms have "P (world s) \<subseteq> P w'" unfolding store_contract_def by (metis snd_conv)
  with o show ?thesis
    by (simp add: read_clock_def step_ok_one_call)
qed

lemma read_clock_calls:
  "read_clock rt s = (t, s') \<Longrightarrow> last_reading (rev (calls s')) = Some t"
  by (auto simp: read_clock_def split: prod.splits)

lemma step_ok_process_record:
  assumes "store_contract rt cb P"
  shows "step_ok P ret s (snd (process_record rt cb e s))
       \<and> last_reading (rev (calls (snd (process_record rt cb e s)))) = last_reading (rev (calls s))"
proof (cases "json_parse rt (to_text (obj_get ''data'' (fields_to_obj (snd e) [])))")
  case None
  then show ?thesis by (simp add: process_record_def step_ok_refl)
next
  case (Some d)
  obtain r w1 where c: "cb d (world s) = (r, w1)" by (cases "cb d (world s)")
  from assms have cbP: "P (world s) \<subseteq> P w1"
    unfolding store_contract_def using c by (metis snd_conv)
  show ?thesis
  proof (cases r)
    case (Some err)
    with \<open>json_parse rt _ = Some d\<close> c cbP show ?thesis
      by (simp add: process_record_def run_callback_def emit_error_def step_ok_one_call)
  next
    case None
    obtain r2 w2 where a: "xack rt (fst e) w1 = (r2, w2)" by (cases "xack rt (fst e) w1")
    from assms have ackP: "P w1 - {fst e} \<subseteq> P w2"
      unfolding store_contract_def using a by (metis snd_conv)
    have calls': "calls (snd (process_record rt cb e s)) = calls s @ [Callback (fst e) True, XAck (fst e)]"
      and world': "world (snd (process_record rt cb e s)) = w2"
      using None \<open>json_parse rt _ = Some d\<close> c a
      by (auto simp: process_record_def run_callback_def client_call_def emit_error_def
            split: option.splits)
    have "\<forall>i \<in> P (world s). i \<in> P w2 \<or> XAck i \<in> set [Callback (fst e) True, XAck (fst e)]"
      using cbP ackP by auto
    with calls' world' show ?thesis
      by (auto simp: step_ok_def)
  qed
qed

lemma step_ok_process_entries:
  assumes "store_contract rt cb P"
  shows "step_ok P ret s (snd (process_entries rt cb es s))
       \<and> last_reading (rev (calls (snd (process_entries rt cb es s)))) = last_reading (rev (calls s))"
proof (induction es arbitrary: s)
  case Nil
  then show ?case by (simp add: step_ok_refl)
next
  case (Cons e es)
  obtain r s1 where p: "process_record rt cb e s = (r, s1)" by (cases "process_record rt cb e s")
  from step_ok_process_record [OF assms, of ret s e] p
  have 1: "step_ok P ret s s1" and 2: "last_reading (rev (calls s1)) = last_reading (rev (calls s))"
    by simp_all
  show ?case
  proof (cases r)
    case (Inl err)
    with p 1 2 show ?thesis by simp
  next
    case (Inr u)
    with p 1 2 Cons.IH [of s1] show ?thesis
      by (auto intro: step_ok_trans)
  qed
qed

lemma step_ok_processMessages:
  assumes "store_contract rt cb P"
  shows "step_ok P ret s (snd (processMessages rt cb msgs s))
       \<and> last_reading (rev (calls (snd (processMessages rt cb msgs s)))) = last_reading (rev (calls s))"
  using step_ok_process_entries [OF assms]
  by (cases msgs) (simp_all add: processMessages_def step_ok_refl)

lemma step_ok_stale_ack:
  assumes "store_contract rt cb P" and "last_reading (rev (calls s)) = Some now"
    and "ret < now - fst i"
  shows "step_ok P ret s (snd (client_call (XAck i) (xack rt i) s))
       \<and> last_reading (rev (calls (snd (client_call (XAck i) (xack rt i) s)))) = Some now"
proof -
  obtain r w' where a: "xack rt i (world s) = (r, w')" by (cases "xack rt i (world s)")
  from assms(1) have "P (world s) - {i} \<subseteq> P w'"
    unfolding store_contract_def using a by (metis snd_conv)
  then have "\<forall>j \<in> P (world s). j \<in> P w' \<or> XAck j \<in> set [XAck i]" by auto
  with a assms(2,3) show ?thesis
    by (auto simp: step_ok_def client_call_def)
qed

lemma step_ok_pending_loop:
  assumes "store_contract rt cb P"
  shows "last_reading (rev (calls s)) = Some now \<Longrightarrow>
         step_ok P ret s (snd (pending_loop rt cb now ret pr es s))"
proof (induction es arbitrary: s)
  case Nil
  then show ?case by (simp add: step_ok_refl)
next
  case (Cons e es)
  show ?case
  proof (cases "now - fst (fst e) \<le> ret")
    case True
    obtain r s1 where p: "processMessages rt cb pr s = (r, s1)" by (cases "processMessages rt cb pr s")
    from step_ok_processMessages [OF assms, of ret s pr] p Cons.prems
    have 1: "step_ok P ret s s1" and 2: "last_reading (rev (calls s1)) = Some now" by simp_all
    from True p 1 Cons.IH [OF 2] show ?thesis
      by (cases r) (auto intro: step_ok_trans)
  next
    case False
    obtain r s1 where p: "client_call (XAck (fst e)) (xack rt (fst e)) s = (r, s1)"
      by (cases "client_call (XAck (fst e)) (xack rt (fst e)) s")
    from False have "ret < now - fst (fst e)" by simp
    from step_ok_stale_ack [OF assms Cons.prems this] p
    have 1: "step_ok P ret s s1" and 2: "last_reading (rev (calls s1)) = Some now" by simp_all
    from False p 1 Cons.IH [OF 2] show ?thesis
      by (cases r) (auto intro: step_ok_trans)
  qed
qed

lemma step_ok_pending_pass:
  assumes "store_contract rt cb P"
  shows "step_ok P (or_default (maxRetentionMs opts) (1000 * 60 * 60 * 24)) s
           (snd (pending_pass rt opts cb pr s))"
proof -
  obtain now s1 where c: "read_clock rt s = (now, s1)" by (cases "read_clock rt s")
  from step_ok_read_clock [OF assms, of _ s] c
  have 1: "step_ok P (or_default (maxRetentionMs opts) (1000 * 60 * 60 * 24)) s s1" by simp
  from read_clock_calls [OF c] have 2: "last_reading (rev (calls s1)) = Some now" .
  show ?thesis
  proof (cases pr)
    case Nil
    with c 1 show ?thesis by (simp add: pending_pass_def)
  next
    case (Cons m ms)
    with c 1 step_ok_pending_loop [OF assms 2] show ?thesis
      by (auto simp: pending_pass_def intro: step_ok_trans)
  qed
qed

lemma step_ok_trimStream:
  assumes "store_contract rt cb P"
  shows "step_ok P ret s (snd (trimStream rt opts s))"
proof -
  obtain t1 s1 where c1: "read_clock rt s = (t1, s1)" by (cases "read_clock rt s")
  from step_ok_read_clock [OF assms, of ret s] c1 have 1: "step_ok P ret s s1" by simp
  show ?thesis
  proof (cases "lastTrim s1 + or_default (trimIntervalMs opts) 60000 > t1")
    case True
    with c1 1 show ?thesis by (simp add: trimStream_def)
  next
    case False
    obtain t2 s2 where c2: "read_clock rt s1 = (t2, s2)" by (cases "read_clock rt s1")
    from step_ok_read_clock [OF assms, of ret s1] c2 have 2: "step_ok P ret s1 s2" by simp
    obtain r3 w3 where g: "get_client rt (world s2) = (r3, w3)" by (cases "get_client rt (world s2)")
    from assms have "P (world s2) \<subseteq> P w3"
      unfolding store_contract_def using g by (metis snd_conv)
    then have 3: "step_ok P ret s2 (s2\<lparr>lastTrim := t2, world := w3\<rparr>)"
      by (simp add: step_ok_same_calls)
    have 03: "step_ok P ret s (s2\<lparr>lastTrim := t2, world := w3\<rparr>)"
      using 1 2 3 by (blast intro: step_ok_trans)
    show ?thesis
    proof (cases r3)
      case (Some err)
      with False c1 c2 g 03 show ?thesis by (simp add: trimStream_def)
    next
      case None
      obtain now s4 where c4: "read_clock rt (s2\<lparr>lastTrim := t2, world := w3\<rparr>) = (now, s4)"
        by (cases "read_clock rt (s2\<lparr>lastTrim := t2, world := w3\<rparr>)")
      from step_ok_read_clock [OF assms, of ret "s2\<lparr>lastTrim := t2, world := w3\<rparr>"] c4
      have 4: "step_ok P ret (s2\<lparr>lastTrim := t2, world := w3\<rparr>) s4" by simp
      obtain r5 s5 where x: "client_call XRange (xrange_first rt) s4 = (r5, s5)"
        by (cases "client_call XRange (xrange_first rt) s4")
      from assms have "\<forall>w. P w \<subseteq> P (snd (xrange_first rt w))" by (simp add: store_contract_def)
      from step_ok_client_call [OF this, of XRange ret s4] x
      have 5: "step_ok P ret s4 s5" by simp
      have 05: "step_ok P ret s s5" using 03 4 5 by (blast intro: step_ok_trans)
      from assms have tr: "\<forall>w. P w \<subseteq> P (snd (xtrim_minid rt (cutoffTime now (maxRetentionMs opts)) w))"
        by (simp add: store_contract_def)
      have 6: "step_ok P ret s5 (snd (client_call (XTrim (cutoffTime now (maxRetentionMs opts)))
                   (xtrim_minid rt (cutoffTime now (maxRetentionMs opts))) s5))"
        by (rule step_ok_client_call [OF tr]) simp
      have 06: "step_ok P ret s (snd (client_call (XTrim (cutoffTime now (maxRetentionMs opts)))
                   (xtrim_minid rt (cutoffTime now (maxRetentionMs opts))) s5))"
        using 05 6 by (blast intro: step_ok_trans)
      from None False c1 c2 g c4 x 05 06 show ?thesis
        by (auto simp: trimStream_def Let_def split: sum.splits list.splits prod.splits option.splits)
    qed
  qed
qed

lemma step_ok_new_phase:
  assumes "store_contract rt cb P"
  shows "step_ok P ret s (snd (new_phase rt opts cb s))"
proof -
  obtain r2 s2 where t: "trimStream rt opts s = (r2, s2)" by (cases "trimStream rt opts s")
  from step_ok_trimStream [OF assms, of ret s opts] t have 1: "step_ok P ret s s2" by simp
  obtain r3 s3 where x: "client_call
             (XReadGroup NewSel (or_default (batchSize opts) 1) (or_default (blockTimeMs opts) 1000))
             (xreadgroup rt (or_default (batchSize opts) 1) (or_default (blockTimeMs opts) 1000) NewSel)
             s2 = (r3, s3)"
    by (cases "client_call
             (XReadGroup NewSel (or_default (batchSize opts) 1) (or_default (blockTimeMs opts) 1000))
             (xreadgroup rt (or_default (batchSize opts) 1) (or_default (blockTimeMs opts) 1000) NewSel)
             s2")
  from assms have rd: "\<forall>w. P w \<subseteq> P (snd (xreadgroup rt (or_default (batchSize opts) 1)
       (or_default (blockTimeMs opts) 1000) NewSel w))"
    by (simp add: store_contract_def)
  have "step_ok P ret s2 (snd (client_call
             (XReadGroup NewSel (or_default (batchSize opts) 1) (or_default (blockTimeMs opts) 1000))
             (xreadgroup rt (or_default (batchSize opts) 1) (or_default (blockTimeMs opts) 1000) NewSel)
             s2))"
    by (rule step_ok_client_call [OF rd]) simp
  with x have 2: "step_ok P ret s2 s3" by simp
  have 02: "step_ok P ret s s3" using 1 2 by (blast intro: step_ok_trans)
  have 3: "\<And>msgs. step_ok P ret s (snd (processMessages rt cb msgs s3))"
    using 02 step_ok_processMessages [OF assms, of ret s3] by (blast intro: step_ok_trans)
  from t x 1 02 3 show ?thesis
    by (auto simp: new_phase_def Let_def split: sum.splits option.splits)
qed

lemma step_ok_iteration_body:
  assumes "store_contract rt cb P"
  shows "step_ok P (or_default (maxRetentionMs opts) (1000 * 60 * 60 * 24)) s
           (snd (iteration_body rt opts cb s))"
proof -
  let ?ret = "or_default (maxRetentionMs opts) (1000 * 60 * 60 * 24)"
  obtain r1 s1 where x: "client_call
             (XReadGroup PendingSel (or_default (batchSize opts) 1) (or_default (blockTimeMs opts) 1000))
             (xreadgroup rt (or_default (batchSize opts) 1) (or_default (blockTimeMs opts) 1000) PendingSel)
             s = (r1, s1)"
    by (cases "client_call
             (XReadGroup PendingSel (or_default (batchSize opts) 1) (or_default (blockTimeMs opts) 1000))
             (xreadgroup rt (or_default (batchSize opts) 1) (or_default (blockTimeMs opts) 1000) PendingSel)
             s")
  from assms have rd: "\<forall>w. P w \<subseteq> P (snd (xreadgroup rt (or_default (batchSize opts) 1)
       (or_default (blockTimeMs opts) 1000) PendingSel w))"
    by (simp add: store_contract_def)
  have "step_ok P ?ret s (snd (client_call
             (XReadGroup PendingSel (or_default (batchSize opts) 1) (or_default (blockTimeMs opts) 1000))
             (xreadgroup rt (or_default (batchSize opts) 1) (or_default (blockTimeMs opts) 1000) PendingSel)
             s))"
    by (rule step_ok_client_call [OF rd]) simp
  with x have 1: "step_ok P ?ret s s1" by simp
  have 2: "step_ok P ?ret s (snd (new_phase rt opts cb s1))"
    using 1 step_ok_new_phase [OF assms, of ?ret s1 opts] by (blast intro: step_ok_trans)
  have 3: "\<And>pr. step_ok P ?ret s (snd (pending_pass rt opts cb pr s1))"
    using 1 step_ok_pending_pass [OF assms, of opts s1] by (blast intro: step_ok_trans)
  from x 1 2 3 show ?thesis
    by (auto simp: iteration_body_def Let_def split: sum.splits option.splits)
qed

lemma step_ok_consume_iteration:
  assumes "store_contract rt cb P"
  shows "step_ok P (or_default (maxRetentionMs opts) (1000 * 60 * 60 * 24)) s
           (consume_iteration rt opts cb s)"
proof -
  obtain r s1 where b: "iteration_body rt opts cb s = (r, s1)" by (cases "iteration_body rt opts cb s")
  from step_ok_iteration_body [OF assms, of opts s] b
  have 1: "step_ok P (or_default (maxRetentionMs opts) (1000 * 60 * 60 * 24)) s s1" by simp
  with b show ?thesis
    by (cases r) (auto simp: consume_iteration_def intro: step_ok_trans step_ok_emit_error)
qed

lemma store_meets_contract:
  "store_contract (store_runtime parse) (user_callback f) (\<lambda>w. fst ` set (pel w))"
  by (auto simp: store_contract_def store_runtime_def store_xreadgroup_def store_xack_def
        store_xrange_first_def store_xtrim_def user_callback_def Let_def
        split: selector.splits prod.splits)

text \<open>
  For a store that keeps its contract: (1) an iteration of \<open>consume\<close> only adds calls, and
  an id that was pending before it is still pending after it unless the iteration issued an
  acknowledgment for it; (2) every acknowledgment the iteration issues comes directly after
  a resolved callback on that record, or is for a record older than the retention at the
  clock reading of the pending pass; (3) the same as (1) for \<open>processMessages\<close> from any
  state, so also for the records the new-record read has just delivered.
\<close>

lemma pending_set_shrinks_only_by_ack:
  assumes "store_contract rt cb pending"
  shows "(\<exists>new. calls (consume_iteration rt opts cb s) = calls s @ new
            \<and> (\<forall>i \<in> pending (world s).
                  i \<in> pending (world (consume_iteration rt opts cb s)) \<or> XAck i \<in> set new))
       \<and> (acks_justified (or_default (maxRetentionMs opts) (1000 * 60 * 60 * 24)) (rev (calls s))
            \<longrightarrow> acks_justified (or_default (maxRetentionMs opts) (1000 * 60 * 60 * 24))
                  (rev (calls (consume_iteration rt opts cb s))))
       \<and> (\<exists>new. calls (snd (processMessages rt cb msgs s)) = calls s @ new
            \<and> (\<forall>i \<in> pending (world s).
                  i \<in> pending (world (snd (processMessages rt cb msgs s))) \<or> XAck i \<in> set new))"
  using step_ok_consume_iteration [OF assms, of opts s]
    step_ok_processMessages [OF assms, of 0 s msgs]
  by (simp add: step_ok_def)

text \<open>
  C2. The claim: a delivered record stays in the pending set, re-deliverable by the pending
  read, until it is acknowledged or discarded, and a record whose callback fails is present
  in a subsequent pending read. On the code such a record does stay in the pending set, but
  the pending read of the consumer does not return it: the read asks for \<open>batchSize || 1\<close>
  records from the start of the pending set, and the records at the start are never handled
  nor discarded, since the reply that holds them fails the guard \<open>pendingResult.length > 1\<close>
  of the pending phase. With two records and a callback that rejects, both records are
  pending after two iterations; the pending read returns the first of them only, and three
  more iterations neither read the second one again nor pass it to the callback.
\<close>

theorem failed_record_absent_from_pending_read:
  "pel (world (consume_iteration (store_runtime parse_number) default_options failing_callback
         (consume_iteration (store_runtime parse_number) default_options failing_callback
            (fresh_consumer unread_store)))) =
     [((1699999999000, 0), [''data'', ''1'']), ((1699999999500, 0), [''data'', ''2''])]
   \<and> calls (consume_iteration (store_runtime parse_number) default_options failing_callback
         (consume_iteration (store_runtime parse_number) default_options failing_callback
            (fresh_consumer unread_store))) =
     [XReadGroup PendingSel 1 1000, DateNow 1700000000000, DateNow 1700000000000,
      DateNow 1700000000000, XRange, XReadGroup NewSel 1 1000,
      Callback (1699999999000, 0) False,
      XReadGroup PendingSel 1 1000, DateNow 1700000000000, XReadGroup NewSel 1 1000,
      Callback (1699999999500, 0) False]
   \<and> fst (xreadgroup (store_runtime parse_number) 1 1000 PendingSel
         (world (consume_iteration (store_runtime parse_number) default_options failing_callback
            (consume_iteration (store_runtime parse_number) default_options failing_callback
               (fresh_consumer unread_store))))) =
     Inr (Some [(''jobs'', [((1699999999000, 0), [''data'', ''1''])])])
   \<and> consume_loop 3 (store_runtime parse_number) default_options failing_callback
       (consume_iteration (store_runtime parse_number) default_options failing_callback
          (consume_iteration (store_runtime parse_number) default_options failing_callback
             (fresh_consumer unread_store))) =
     (False,
      (consume_iteration (store_runtime parse_number) default_options failing_callback
          (consume_iteration (store_runtime parse_number) default_options failing_callback
             (fresh_consumer unread_store)))
       \<lparr>calls :=
          [XReadGroup PendingSel 1 1000, DateNow 1700000000000, DateNow 1700000000000,
           DateNow 1700000000000, XRange, XReadGroup NewSel 1 1000,
           Callback (1699999999000, 0) False,
           XReadGroup PendingSel 1 1000, DateNow 1700000000000, XReadGroup NewSel 1 1000,
           Callback (1699999999500, 0) False,
           XReadGroup PendingSel 1 1000, DateNow 1700000000000, XReadGroup NewSel 1 1000,
           XReadGroup PendingSel 1 1000, DateNow 1700000000000, XReadGroup NewSel 1 1000,
           XReadGroup PendingSel 1 1000, DateNow 1700000000000, XReadGroup NewSel 1 1000]\<rparr>)"
  by (simp add: consumer_defs store_defs default_options_def failing_callback_def
        fresh_consumer_def unread_store_def numeral_3_eq_3)

section \<open>The consumer: a record whose data does not parse\<close>

lemma process_entries_append:
  "process_entries rt cb (pre @ post) s =
     (case process_entries rt cb pre s of
        (Inl err, s') \<Rightarrow> (Inl err, s')
      | (Inr _, s') \<Rightarrow> process_entries rt cb post s')"
  by (induction pre arbitrary: s) (auto split: prod.splits sum.splits)

lemma process_record_bad_data:
  "bad_data rt r \<Longrightarrow>
   process_record rt cb r s =
     (Inl (SyntaxError (to_text (obj_get ''data'' (fields_to_obj (snd r) [])))), s)"
  by (simp add: process_record_def bad_data_def)

lemma process_record_error:
  "process_record rt cb r s = (Inl err, s') \<Longrightarrow> \<exists>msg. err = SyntaxError msg"
  by (auto simp: process_record_def Let_def split: option.splits prod.splits)

lemma process_entries_error:
  "process_entries rt cb es s = (Inl err, s') \<Longrightarrow> \<exists>msg. err = SyntaxError msg"
  by (induction es arbitrary: s)
     (auto split: prod.splits sum.splits dest: process_record_error)

lemma process_entries_stops_at_bad_data:
  assumes "bad_data rt r"
  shows "(\<exists>msg. fst (process_entries rt cb (pre @ r # post) s) = Inl (SyntaxError msg))
       \<and> snd (process_entries rt cb (pre @ r # post) s) = snd (process_entries rt cb pre s)"
proof (cases "process_entries rt cb pre s")
  case (Pair res s')
  show ?thesis
  proof (cases res)
    case (Inl err)
    with Pair process_entries_error [of rt cb pre s err s'] show ?thesis
      by (auto simp: process_entries_append)
  next
    case (Inr u)
    with Pair assms show ?thesis
      by (simp add: process_entries_append process_record_bad_data)
  qed
qed

text \<open>
  C10. The \<open>data\<close> field is parsed outside the \<open>try\<close> of \<open>processMessages\<close>. When a batch
  holds a record \<open>r\<close> whose \<open>data\<close> is not valid JSON, \<open>processMessages\<close> ends with a
  SyntaxError, and the state it leaves is the one left by processing only the records
  before \<open>r\<close>: neither \<open>r\<close> nor any later record reaches the callback or is acknowledged.
  In an iteration of \<open>consume\<close> that reads this batch as new records (the pending read did
  not pass its guard and trimming did not fail), the error is emitted on the error channel
  and the iteration ends normally, so the loop goes on.
\<close>

theorem parse_error_escapes_processMessages:
  assumes "bad_data rt r"
  shows "(\<exists>msg. fst (processMessages rt cb ((k, pre @ r # post) # others) s) =
                 Inl (SyntaxError msg))
       \<and> snd (processMessages rt cb ((k, pre @ r # post) # others) s) =
           snd (processMessages rt cb ((k, pre) # others) s)
       \<and> (client_call
             (XReadGroup PendingSel (or_default (batchSize opts) 1)
                (or_default (blockTimeMs opts) 1000))
             (xreadgroup rt (or_default (batchSize opts) 1) (or_default (blockTimeMs opts) 1000)
                PendingSel) s0 = (Inr p, s1)
           \<and> (case p of None \<Rightarrow> True | Some pendingResult \<Rightarrow> \<not> pending_guard pendingResult)
           \<and> trimStream rt opts s1 = (Inr (), s2)
           \<and> client_call
               (XReadGroup NewSel (or_default (batchSize opts) 1)
                  (or_default (blockTimeMs opts) 1000))
               (xreadgroup rt (or_default (batchSize opts) 1) (or_default (blockTimeMs opts) 1000)
                  NewSel) s2 = (Inr (Some ((k, pre @ r # post) # others)), s)
          \<longrightarrow> (\<exists>msg. consume_iteration rt opts cb s0 =
                 emit_error (SyntaxError msg)
                   (snd (processMessages rt cb ((k, pre) # others) s))))"
proof -
  from process_entries_stops_at_bad_data [OF assms, of cb pre post s]
  obtain msg where t: "fst (process_entries rt cb (pre @ r # post) s) = Inl (SyntaxError msg)"
    and st: "snd (process_entries rt cb (pre @ r # post) s) = snd (process_entries rt cb pre s)"
    by blast
  have pm: "processMessages rt cb ((k, pre @ r # post) # others) s =
          (Inl (SyntaxError msg), snd (processMessages rt cb ((k, pre) # others) s))"
    using t st by (simp add: processMessages_def prod_eq_iff)
  show ?thesis
    using pm
    by (auto simp: consume_iteration_def iteration_body_def new_phase_def new_guard_def
          tuple_length_def Let_def split: option.splits)
qed

theorem parse_error_escapes_processMessages_witness:
  "bad_data (store_runtime parse_number) ((1699999999200, 0), [''data'', ''{bad''])
   \<and> consume_iteration (store_runtime parse_number) batch_options counting_callback
        (fresh_consumer garbled_store) =
      \<lparr>lastTrim = 1700000000000,
       world = garbled_store
         \<lparr>last_delivered := Some (1699999999400, 0),
          pel := [((1699999999200, 0), [''data'', ''{bad'']),
                  ((1699999999400, 0), [''data'', ''3''])],
          user := 1\<rparr>,
       emitted = [SyntaxError ''{bad''],
       calls = [XReadGroup PendingSel 3 1000, DateNow 1700000000000, DateNow 1700000000000,
                DateNow 1700000000000, XRange, XReadGroup NewSel 3 1000,
                Callback (1699999999000, 0) True, XAck (1699999999000, 0)]\<rparr>"
  using parse_error_escapes_processMessages [of "store_runtime parse_number"
      "((1699999999200, 0), [''data'', ''{bad''])" counting_callback "''jobs''"
      "[((1699999999000, 0), [''data'', ''1''])]" "[((1699999999400, 0), [''data'', ''3''])]" "[]"
      "snd (client_call (XReadGroup NewSel 3 1000)
         (xreadgroup (store_runtime parse_number) 3 1000 NewSel)
         (snd (trimStream (store_runtime parse_number) batch_options
           (snd (client_call (XReadGroup PendingSel 3 1000)
              (xreadgroup (store_runtime parse_number) 3 1000 PendingSel)
              (fresh_consumer garbled_store))))))"
      batch_options "fresh_consumer garbled_store"
      "Some [(''jobs'', [])]"
      "snd (client_call (XReadGroup PendingSel 3 1000)
              (xreadgroup (store_runtime parse_number) 3 1000 PendingSel)
              (fresh_consumer garbled_store))"
      "snd (trimStream (store_runtime parse_number) batch_options
           (snd (client_call (XReadGroup PendingSel 3 1000)
              (xreadgroup (store_runtime parse_number) 3 1000 PendingSel)
              (fresh_consumer garbled_store))))"]
  by (simp add: consumer_defs store_defs default_options_def counting_callback_def
        fresh_consumer_def garbled_store_def batch_options_def bad_data_def)

section \<open>The consumer: one callback and one acknowledgment per record\<close>










section \<open>The consumer: trimming\<close>

text \<open>
  A call within the interval since the last trim only reads the clock: no command is issued
  and \<open>lastTrim\<close> stays.
\<close>

lemma trimStream_within_interval:
  assumes "date_now rt (world s) = (t, w')"
    and "t < lastTrim s + or_default (trimIntervalMs opts) 60000"
  shows "trimStream rt opts s = (Inr (), s\<lparr>world := w', calls := calls s @ [DateNow t]\<rparr>)"
  using assms by (simp add: trimStream_def read_clock_def)

text \<open>The cutoff is \<open>now - maxRetentionMs\<close> when the retention is set and differs from \<open>now\<close>.\<close>

lemma cutoffTime_set: "now \<noteq> r \<Longrightarrow> cutoffTime now (Some r) = now - r"
  by (simp add: cutoffTime_def)

text \<open>On the store, \<open>trimStream\<close> keeps every record whose timestamp is at or after its cutoff.\<close>

lemma trimStream_keeps_from_cutoff:
  assumes "e \<in> set (stream (world s))"
    and "cutoffTime (clock (world s)) (maxRetentionMs opts) \<le> fst (fst e)"
  shows "e \<in> set (stream (world (snd (trimStream (store_runtime parse) opts s))))"
  using assms
  by (auto simp: trimStream_def read_clock_def client_call_def store_runtime_def
        store_xrange_first_def store_xtrim_def Let_def split: list.splits)

text \<open>
  C5. The claim: \<open>trimStream\<close> trims at most once per interval and only deletes records
  older than \<open>now - maxRetentionMs\<close>, the retention being a day when unset. The cutoff of the
  code is \<open>(now - maxRetentionMs) || 86400000\<close>: with the retention unset it is the instant
  86400000 itself. With the clock at 100000000 the claim's cutoff is 13600000; the code
  trims at 86400000 and deletes the record of instant 50000000, which is not older than the
  claim's cutoff.
\<close>

theorem trimStream_unset_retention_cutoff:
  "calls (snd (trimStream (store_runtime parse_number) default_options
                 (fresh_consumer early_store))) =
     [DateNow 100000000, DateNow 100000000, DateNow 100000000, XRange, XTrim 86400000]
   \<and> stream (world (snd (trimStream (store_runtime parse_number) default_options
                           (fresh_consumer early_store)))) = []
   \<and> stream early_store = [((50000000, 0), [''data'', ''1''])]
   \<and> \<not> (50000000 < clock early_store - 1000 * 60 * 60 * 24)"
  by (simp add: consumer_defs store_defs default_options_def fresh_consumer_def
        early_store_def)

section \<open>The listener: starting twice\<close>

text \<open>
  C9. Calling \<open>run\<close> on a listener that is already running fails with the error
  "Queue Events is already running." and changes nothing: the state of the listener, with
  the loop that is under way, is the same afterwards.
\<close>

theorem run_while_running_fails:
  "running s \<Longrightarrow>
   run n rt opts s = (Some (Inl (Error ''Queue Events is already running.'')), s)"
  by (simp add: run_def)

theorem run_while_running_fails_witness:
  "running running_listener \<and>
   run 3 (event_runtime parse_number) listener_options running_listener =
     (Some (Inl (Error ''Queue Events is already running.'')), running_listener)"
  using run_while_running_fails [of running_listener 3 "event_runtime parse_number" listener_options]
  by (simp add: running_listener_def)

section \<open>The listener: what is emitted for a record\<close>

lemma get_prop_to_args: "get_prop k (to_args obj) = as_value (obj_get k obj)"
  by (induction obj)
     (auto simp: get_prop_def to_args_def obj_get_def as_value_def split: option.splits)

lemma get_prop_obj_set: "get_prop k (obj_set k' v args) = (if k = k' then v else get_prop k args)"
  by (induction args) (auto simp: get_prop_def)

lemma get_prop_filter:
  "k \<noteq> k' \<Longrightarrow> get_prop k (filter (\<lambda>kv. fst kv \<noteq> k') args) = get_prop k args"
  by (induction args) (auto simp: get_prop_def)

lemma decode_keeps:
  "decode rt args = Inr args' \<Longrightarrow> k \<noteq> ''data'' \<Longrightarrow> k \<noteq> ''returnvalue'' \<Longrightarrow>
   get_prop k args' = get_prop k args"
  by (auto simp: decode_def parse_prop_def get_prop_obj_set split: if_splits option.splits)

lemma js_text_as_value: "js_text rt (as_value v) = to_text v"
  by (simp add: js_text_def as_value_def to_text_def split: option.splits)

lemma truthy_as_value: "truthy rt (as_value v) \<longleftrightarrow> v \<noteq> None \<and> v \<noteq> Some []"
  by (auto simp: truthy_def as_value_def split: option.splits)

lemma as_value_eq_Str: "as_value v = Str s \<longleftrightarrow> v = Some s"
  by (auto simp: as_value_def split: option.splits)

text \<open>
  C7, as claimed, fails. The claim is for every record \<open>consumeEvents\<close> processes. A
  \<open>completed\<close> record without a \<open>returnvalue\<close> field (likewise a \<open>progress\<close> record whose
  \<open>data\<close> is not JSON) is processed, the cursor being set to its id, but nothing is emitted
  for it under any topic: \<open>JSON.parse\<close> throws and \<open>consumeEvents\<close> ends with the error.
\<close>

theorem undecodable_record_not_emitted:
  "consumeEvents 1 (event_runtime parse_number) listener_options restarted_listener =
     (Some (Inl (SyntaxError ''undefined'')), At (1699999999600, 0),
      restarted_listener
        \<lparr>ev_world := faulty_event_store
           \<lparr>ev_log := [((1699999999000, 0), [''event'', ''waiting'', ''jobId'', ''7'']),
                       ((1699999999500, 0), [''event'', ''active'', ''jobId'', ''7'']),
                       ((1699999999600, 0), [''event'', ''completed'', ''jobId'', ''7''])],
            incoming := []\<rparr>,
         actions :=
           [SetCursor (1699999999500, 0),
            Emit (Str ''active'') [ArgObj [(''jobId'', Str ''7'')], ArgId (1699999999500, 0)],
            Emit (Str ''active:7'') [ArgObj [(''jobId'', Str ''7'')], ArgId (1699999999500, 0)],
            SetCursor (1699999999600, 0)]\<rparr>)"
  by (simp add: consumeEvents_def decode_def parse_prop_def dispatch_def emit_def get_prop_def
        to_args_def js_text_def truthy_def array2obj_def obj_get_def to_text_def
        event_runtime_def store_xread_def Let_def parse_number_def digit_value_def
        listener_options_def restarted_listener_def faulty_event_store_def)

text \<open>What the code does with a record that decodes, and with one that does not.\<close>

lemma decode_fails:
  "\<not> decodes rt e \<Longrightarrow> decode rt (to_args (array2obj (snd e))) = Inl (parse_failure e)"
  by (auto simp: decodes_def decode_def parse_prop_def parsed_field_def parse_failure_def
        get_prop_to_args as_value_eq_Str js_text_as_value event_kind_def
        split: if_splits option.splits)

lemma decode_succeeds:
  "decodes rt e \<Longrightarrow>
   \<exists>args. decode rt (to_args (array2obj (snd e))) = Inr args
      \<and> filter (\<lambda>kv. fst kv \<noteq> ''event'') args = payload rt e"
  by (auto simp: decodes_def decode_def parse_prop_def parsed_field_def payload_def
        get_prop_to_args as_value_eq_Str js_text_as_value event_kind_def
        split: if_splits option.splits)

lemma dispatch_emissions:
  assumes "decode rt (to_args (array2obj (snd e))) = Inr args"
    and "filter (\<lambda>kv. fst kv \<noteq> ''event'') args = payload rt e"
  shows "dispatch rt (fst e) args s = s\<lparr>actions := actions s @ record_emissions rt e\<rparr>"
proof -
  have ev: "get_prop ''event'' args = as_value (event_kind (snd e))"
    using decode_keeps [OF assms(1), of "''event''"]
    by (simp add: get_prop_to_args event_kind_def)
  have jb: "get_prop ''jobId'' (payload rt e) = as_value (job_id (snd e))"
    using decode_keeps [OF assms(1), of "''jobId''"]
    by (simp add: assms(2) [symmetric] get_prop_filter get_prop_to_args job_id_def)
  show ?thesis
    by (simp add: dispatch_def emit_def Let_def assms(2) ev jb js_text_as_value truthy_as_value
          as_value_eq_Str record_emissions_def)
qed

lemma process_events_decodes:
  assumes "decodes rt e"
  shows "process_events rt (e # es) c s =
           process_events rt es (At (fst e)) (s\<lparr>actions := actions s @ handled rt e\<rparr>)"
proof -
  from decode_succeeds [OF assms]
  obtain args where a: "decode rt (to_args (array2obj (snd e))) = Inr args"
    "filter (\<lambda>kv. fst kv \<noteq> ''event'') args = payload rt e" by blast
  show ?thesis
    by (simp add: a(1) dispatch_emissions [OF a] handled_def Let_def)
qed

lemma batch_cursor_Cons: "batch_cursor (At (fst e)) es = batch_cursor c (e # es)"
  by (simp add: batch_cursor_def)

lemma process_events_expected:
  "process_events rt es c s = expected_batch rt es c s"
proof (induction es arbitrary: c s)
  case Nil
  show ?case by (simp add: expected_batch_def batch_cursor_def)
next
  case (Cons e es)
  show ?case
  proof (cases "decodes rt e")
    case True
    have "process_events rt (e # es) c s =
            expected_batch rt es (At (fst e)) (s\<lparr>actions := actions s @ handled rt e\<rparr>)"
      by (simp only: process_events_decodes [OF True] Cons.IH)
    also have "\<dots> = expected_batch rt (e # es) c s"
      using True
      by (cases "dropWhile (decodes rt) es")
         (simp_all add: expected_batch_def batch_cursor_Cons [of e es c]
            del: dropWhile_eq_Nil_conv)
    finally show ?thesis .
  next
    case False
    then show ?thesis
      by (simp add: expected_batch_def decode_fails Let_def)
  qed
qed

text \<open>
  C7, amended. For every record \<open>consumeEvents\<close> processes whose decoded field parses (the
  \<open>data\<close> of a \<open>progress\<close> record, the \<open>returnvalue\<close> of a \<open>completed\<close> record; any other
  record always): if its event kind is the literal \<open>drained\<close> it is emitted under
  \<open>drained\<close> with the record id alone; otherwise the payload and the id are emitted under
  the kind and, exactly when the record carries a job id (a \<open>jobId\<close> field that is not the
  empty string), the same payload and id are emitted once more under \<open>kind:jobId\<close>. A
  record whose decoded field does not parse ends the batch and the loop with the error:
  the cursor is set to its id, nothing is emitted for it nor for the records after it.
  Stated for a whole batch, for an iteration of the loop that reads a batch, and for the
  first iteration of \<open>consumeEvents\<close>.
\<close>

theorem decodable_records_emitted_by_kind:
  "process_events rt es c s = expected_batch rt es c s
   \<and> (\<not> ev_closing rt (ev_world s)
        \<and> xread rt (blockingTimeout opts) c (ev_world s) = (Inr (Some ((k, es) # others)), w1)
      \<longrightarrow> consumeEvents_loop (Suc n) rt opts c s =
            (case expected_batch rt es c (s\<lparr>ev_world := w1\<rparr>) of
               (Inl err, c', s2) \<Rightarrow> (Some (Inl err), c', s2)
             | (Inr u, c', s2) \<Rightarrow> consumeEvents_loop n rt opts c' s2))
   \<and> (\<not> ev_closing rt (ev_world s)
        \<and> xread rt (blockingTimeout opts)
            (case lastEventId opts of None \<Rightarrow> Dollar | Some i \<Rightarrow> At i) (ev_world s) =
          (Inr (Some ((k, es) # others)), w1)
      \<longrightarrow> consumeEvents (Suc n) rt opts s =
            (case expected_batch rt es
                    (case lastEventId opts of None \<Rightarrow> Dollar | Some i \<Rightarrow> At i)
                    (s\<lparr>ev_world := w1\<rparr>) of
               (Inl err, c', s2) \<Rightarrow> (Some (Inl err), c', s2)
             | (Inr u, c', s2) \<Rightarrow> consumeEvents_loop n rt opts c' s2))"
proof (intro conjI impI)
  show "process_events rt es c s = expected_batch rt es c s"
    by (rule process_events_expected)
next
  assume "\<not> ev_closing rt (ev_world s)
        \<and> xread rt (blockingTimeout opts) c (ev_world s) = (Inr (Some ((k, es) # others)), w1)"
  then show "consumeEvents_loop (Suc n) rt opts c s =
            (case expected_batch rt es c (s\<lparr>ev_world := w1\<rparr>) of
               (Inl err, c', s2) \<Rightarrow> (Some (Inl err), c', s2)
             | (Inr u, c', s2) \<Rightarrow> consumeEvents_loop n rt opts c' s2)"
    by (simp add: process_events_expected split: prod.splits sum.splits)
next
  assume "\<not> ev_closing rt (ev_world s)
        \<and> xread rt (blockingTimeout opts)
            (case lastEventId opts of None \<Rightarrow> Dollar | Some i \<Rightarrow> At i) (ev_world s) =
          (Inr (Some ((k, es) # others)), w1)"
  then show "consumeEvents (Suc n) rt opts s =
            (case expected_batch rt es
                    (case lastEventId opts of None \<Rightarrow> Dollar | Some i \<Rightarrow> At i)
                    (s\<lparr>ev_world := w1\<rparr>) of
               (Inl err, c', s2) \<Rightarrow> (Some (Inl err), c', s2)
             | (Inr u, c', s2) \<Rightarrow> consumeEvents_loop n rt opts c' s2)"
    by (simp add: consumeEvents_def process_events_expected split: prod.splits sum.splits)
qed

theorem decodable_records_emitted_by_kind_witness:
  "\<not> ev_closing (event_runtime parse_number) (ev_world drained_listener)
   \<and> fst (xread (event_runtime parse_number) 10000 (At (1699999999000, 0))
            (ev_world drained_listener)) =
       Inr (Some [(''bull:jobs:events'',
         [((1699999999500, 0), [''event'', ''completed'', ''jobId'', ''7'', ''returnvalue'', ''42'']),
          ((1699999999600, 0), [''event'', ''drained''])])])
   \<and> consumeEvents 1 (event_runtime parse_number) listener_options drained_listener =
       (None, At (1699999999600, 0),
        drained_listener
          \<lparr>ev_world := drained_event_store
             \<lparr>ev_log := [((1699999999000, 0), [''event'', ''active'', ''jobId'', ''7'']),
                         ((1699999999500, 0),
                          [''event'', ''completed'', ''jobId'', ''7'', ''returnvalue'', ''42'']),
                         ((1699999999600, 0), [''event'', ''drained''])],
              incoming := []\<rparr>,
           actions :=
             [SetCursor (1699999999500, 0),
              Emit (Str ''completed'')
                [ArgObj [(''jobId'', Str ''7''), (''returnvalue'', Json 42)],
                 ArgId (1699999999500, 0)],
              Emit (Str ''completed:7'')
                [ArgObj [(''jobId'', Str ''7''), (''returnvalue'', Json 42)],
                 ArgId (1699999999500, 0)],
              SetCursor (1699999999600, 0),
              Emit (Str ''drained'') [ArgId (1699999999600, 0)]]\<rparr>)
   \<and> process_events (event_runtime parse_number)
       [((1699999999500, 0), [''event'', ''paused'']),
        ((1699999999600, 0), [''event'', ''progress'', ''jobId'', ''7'', ''data'', ''{bad'']),
        ((1699999999700, 0), [''event'', ''drained''])]
       Dollar drained_listener =
       (Inl (SyntaxError ''{bad''), At (1699999999600, 0),
        drained_listener
          \<lparr>actions :=
             [SetCursor (1699999999500, 0),
              Emit (Str ''paused'') [ArgObj [], ArgId (1699999999500, 0)],
              SetCursor (1699999999600, 0)]\<rparr>)"
  using decodable_records_emitted_by_kind [of "event_runtime parse_number"
      "[((1699999999500, 0), [''event'', ''completed'', ''jobId'', ''7'', ''returnvalue'', ''42'']),
        ((1699999999600, 0), [''event'', ''drained''])]"
      "At (1699999999000, 0)" drained_listener listener_options "''bull:jobs:events''" "[]"
      "drained_event_store
             \<lparr>ev_log := [((1699999999000, 0), [''event'', ''active'', ''jobId'', ''7'']),
                         ((1699999999500, 0),
                          [''event'', ''completed'', ''jobId'', ''7'', ''returnvalue'', ''42'']),
                         ((1699999999600, 0), [''event'', ''drained''])],
              incoming := []\<rparr>" 0]
    decodable_records_emitted_by_kind [of "event_runtime parse_number"
      "[((1699999999500, 0), [''event'', ''paused'']),
        ((1699999999600, 0), [''event'', ''progress'', ''jobId'', ''7'', ''data'', ''{bad'']),
        ((1699999999700, 0), [''event'', ''drained''])]"
      Dollar drained_listener]
  by (simp add: expected_batch_def decodes_def parsed_field_def parse_failure_def payload_def
        record_emissions_def handled_def batch_cursor_def
        event_kind_def job_id_def as_value_def to_args_def array2obj_def obj_get_def to_text_def
        event_runtime_def store_xread_def Let_def parse_number_def digit_value_def
        listener_options_def drained_listener_def drained_event_store_def)

section \<open>The listener: the cursor\<close>

lemma cursor_history_append: "cursor_history (as @ bs) = cursor_history as @ cursor_history bs"
  by (induction as rule: cursor_history.induct) simp_all

text \<open>What the handling of one record, and of a batch, adds to the actions.\<close>

lemma dispatch_actions:
  "\<exists>ems. actions (dispatch rt i args s) = actions s @ ems \<and> cursor_history ems = []
     \<and> emits_carry_cursor (Some i) ems \<and> ev_world (dispatch rt i args s) = ev_world s
     \<and> running (dispatch rt i args s) = running s"
  by (auto simp: dispatch_def emit_def Let_def)

lemma emits_carry_cursor_emits:
  "cursor_history ems = [] \<Longrightarrow> emits_carry_cursor c ems \<Longrightarrow> emits_carry_cursor c bs \<Longrightarrow>
   emits_carry_cursor c (ems @ bs)"
  by (induction c ems rule: emits_carry_cursor.induct) simp_all

lemma process_events_actions:
  "process_events rt es c s = (r, c', s') \<Longrightarrow>
   \<exists>done rest new.
     es = done @ rest \<and> (r = Inr () \<longrightarrow> rest = []) \<and> (es \<noteq> [] \<longrightarrow> done \<noteq> [])
     \<and> actions s' = actions s @ new
     \<and> cursor_history new = map fst done
     \<and> (\<forall>c0. emits_carry_cursor c0 new)
     \<and> c' = (if done = [] then c else At (fst (last done)))
     \<and> ev_world s' = ev_world s \<and> running s' = running s"
proof (induction es arbitrary: c s)
  case Nil
  then show ?case by auto
next
  case (Cons e es)
  let ?s1 = "s\<lparr>actions := actions s @ [SetCursor (fst e)]\<rparr>"
  show ?case
  proof (cases "decode rt (to_args (array2obj (snd e)))")
    case (Inl err)
    with Cons.prems have "r = Inl err" "c' = At (fst e)" "s' = ?s1" by (simp_all add: Let_def)
    then have "e # es = [e] @ es \<and> (r = Inr () \<longrightarrow> es = []) \<and> (e # es \<noteq> [] \<longrightarrow> [e] \<noteq> [])
     \<and> actions s' = actions s @ [SetCursor (fst e)]
     \<and> cursor_history [SetCursor (fst e) :: 'b action] = map fst [e]
     \<and> (\<forall>c0. emits_carry_cursor c0 [SetCursor (fst e) :: 'b action])
     \<and> c' = (if [e] = [] then c else At (fst (last [e])))
     \<and> ev_world s' = ev_world s \<and> running s' = running s"
      by simp
    then show ?thesis by blast
  next
    case (Inr args)
    from dispatch_actions [of rt "fst e" args ?s1]
    obtain ems where ems: "actions (dispatch rt (fst e) args ?s1) = actions ?s1 @ ems"
      "cursor_history ems = []" "emits_carry_cursor (Some (fst e)) ems"
      "ev_world (dispatch rt (fst e) args ?s1) = ev_world ?s1"
      "running (dispatch rt (fst e) args ?s1) = running ?s1"
      by blast
    from Cons.prems Inr
    have rec: "process_events rt es (At (fst e)) (dispatch rt (fst e) args ?s1) = (r, c', s')"
      by (simp add: Let_def)
    from Cons.IH [OF rec]
    obtain dn rest new where ih: "es = dn @ rest" "r = Inr () \<longrightarrow> rest = []"
      "actions s' = actions (dispatch rt (fst e) args ?s1) @ new"
      "cursor_history new = map fst dn" "\<forall>c0. emits_carry_cursor c0 new"
      "c' = (if dn = [] then At (fst e) else At (fst (last dn)))"
      "ev_world s' = ev_world (dispatch rt (fst e) args ?s1)"
      "running s' = running (dispatch rt (fst e) args ?s1)"
      by blast
    have a: "actions s' = actions s @ (SetCursor (fst e) # ems @ new)"
      using ih(3) ems(1) by simp
    have h: "cursor_history (SetCursor (fst e) # ems @ new) = map fst (e # dn)"
      using ems(2) ih(4) by (simp add: cursor_history_append)
    have cc: "\<forall>c0. emits_carry_cursor c0 (SetCursor (fst e) # ems @ new)"
      using ems(2,3) ih(5) by (simp add: emits_carry_cursor_emits)
    have "e # es = (e # dn) @ rest \<and> (r = Inr () \<longrightarrow> rest = []) \<and> (e # es \<noteq> [] \<longrightarrow> e # dn \<noteq> [])
     \<and> actions s' = actions s @ (SetCursor (fst e) # ems @ new)
     \<and> cursor_history (SetCursor (fst e) # ems @ new) = map fst (e # dn)
     \<and> (\<forall>c0. emits_carry_cursor c0 (SetCursor (fst e) # ems @ new))
     \<and> c' = (if e # dn = [] then c else At (fst (last (e # dn))))
     \<and> ev_world s' = ev_world s \<and> running s' = running s"
      using ih(1,2,6,7,8) ems(4,5) a h cc by simp
    then show ?thesis by blast
  qed
qed

text \<open>Facts about lists in ascending id order.\<close>

lemma ascending_le_last:
  fixes xs :: "entry list"
  shows "sorted_wrt (<) (map fst xs) \<Longrightarrow> e \<in> set xs \<Longrightarrow> fst e \<le> fst (last xs)"
  by (induction xs) (auto intro: less_imp_le order_trans)

lemma filter_upto_last:
  fixes dn :: "entry list"
  assumes "sorted_wrt (<) (map fst (dn @ rest))" and "dn \<noteq> []"
  shows "filter (\<lambda>e. fst e \<le> fst (last dn)) (dn @ rest) = dn"
proof -
  from assms(1) have sd: "sorted_wrt (<) (map fst dn)"
    and cross: "\<forall>a \<in> set dn. \<forall>b \<in> set rest. fst a < fst b"
    by (auto simp: sorted_wrt_append)
  from assms(2) have "last dn \<in> set dn" by simp
  with cross have "\<forall>b \<in> set rest. \<not> fst b \<le> fst (last dn)" by (auto simp: not_le)
  then have "filter (\<lambda>e. fst e \<le> fst (last dn)) rest = []" by (simp add: filter_empty_conv)
  moreover have "filter (\<lambda>e. fst e \<le> fst (last dn)) dn = dn"
    using ascending_le_last [OF sd] by (simp add: filter_id_conv)
  ultimately show ?thesis by simp
qed

lemma filter_interval_split:
  fixes x y z :: stream_id and xs :: "entry list"
  assumes "x \<le> y" and "y \<le> z"
  shows "filter (\<lambda>e. x < fst e \<and> fst e \<le> z) xs =
         filter (\<lambda>e. x < fst e \<and> fst e \<le> y) xs @ filter (\<lambda>e. y < fst e \<and> fst e \<le> z) xs
   \<or> \<not> sorted_wrt (<) (map fst xs)"
proof (induction xs)
  case Nil
  then show ?case by simp
next
  case (Cons a xs)
  show ?case
  proof (cases "sorted_wrt (<) (map fst (a # xs))")
    case False
    then show ?thesis by simp
  next
    case True
    then have sx: "sorted_wrt (<) (map fst xs)" and gt: "\<forall>b \<in> set xs. fst a < fst b" by auto
    with Cons.IH have ih: "filter (\<lambda>e. x < fst e \<and> fst e \<le> z) xs =
         filter (\<lambda>e. x < fst e \<and> fst e \<le> y) xs @ filter (\<lambda>e. y < fst e \<and> fst e \<le> z) xs"
      by simp
    show ?thesis
    proof (cases "y < fst a")
      case True
      with gt have "\<forall>b \<in> set xs. \<not> fst b \<le> y" by (auto simp: not_le intro: less_trans)
      then have "filter (\<lambda>e. x < fst e \<and> fst e \<le> y) xs = []" by (simp add: filter_empty_conv)
      with ih True assms show ?thesis by (auto simp: not_le)
    next
      case False
      with ih assms show ?thesis by (auto simp: not_less)
    qed
  qed
qed

lemma emits_carry_cursor_append:
  "emits_carry_cursor c as \<Longrightarrow> \<forall>c0. emits_carry_cursor c0 bs \<Longrightarrow>
   emits_carry_cursor c (as @ bs)"
  by (induction c as rule: emits_carry_cursor.induct) simp_all

lemma consumeEvents_loop_actions:
  "consumeEvents_loop n rt opts c s = (r, c', s') \<Longrightarrow>
   \<exists>new. actions s' = actions s @ new \<and> (\<forall>c0. emits_carry_cursor c0 new)"
proof (induction n arbitrary: c s)
  case 0
  then show ?case by (auto split: if_splits)
next
  case (Suc n)
  show ?case
  proof (cases "ev_closing rt (ev_world s)")
    case True
    with Suc.prems show ?thesis by auto
  next
    case False
    obtain res w1 where x: "xread rt (blockingTimeout opts) c (ev_world s) = (res, w1)"
      by (cases "xread rt (blockingTimeout opts) c (ev_world s)")
    let ?s1 = "s\<lparr>ev_world := w1\<rparr>"
    show ?thesis
    proof (cases res)
      case (Inl err)
      with Suc.prems False x show ?thesis by auto
    next
      case (Inr reply)
      show ?thesis
      proof (cases reply)
        case None
        with Suc.prems False x Inr have "consumeEvents_loop n rt opts c ?s1 = (r, c', s')" by simp
        from Suc.IH [OF this] show ?thesis by simp
      next
        case (Some data)
        show ?thesis
        proof (cases data)
          case Nil
          with Suc.prems False x Inr Some show ?thesis by auto
        next
          case (Cons st sts)
          obtain pr c1 s2 where p: "process_events rt (snd st) c ?s1 = (pr, c1, s2)"
            by (cases "process_events rt (snd st) c ?s1") auto
          from process_events_actions [OF p]
          obtain new1 where n1: "actions s2 = actions s @ new1" "\<forall>c0. emits_carry_cursor c0 new1"
            by auto
          show ?thesis
          proof (cases pr)
            case (Inl err)
            with Suc.prems False x Inr Some Cons p n1 show ?thesis by auto
          next
            case (Inr u)
            with Suc.prems False x \<open>res = Inr reply\<close> Some Cons p
            have "consumeEvents_loop n rt opts c1 s2 = (r, c', s')" by simp
            from Suc.IH [OF this]
            obtain new2 where n2: "actions s' = actions s2 @ new2" "\<forall>c0. emits_carry_cursor c0 new2"
              by auto
            have "\<forall>c0. emits_carry_cursor c0 (new1 @ new2)"
              using n1(2) n2(2) by (simp add: emits_carry_cursor_append)
            with n1 n2 show ?thesis by auto
          qed
        qed
      qed
    qed
  qed
qed

lemma store_xread_result:
  "xread (event_runtime parse) b (At y) w =
     (Inr (if filter (\<lambda>e. y < fst e) (ev_log w @ (case incoming w of [] \<Rightarrow> [] | a # _ \<Rightarrow> a)) = []
           then None
           else Some [(ev_key w,
                  filter (\<lambda>e. y < fst e) (ev_log w @ (case incoming w of [] \<Rightarrow> [] | a # _ \<Rightarrow> a)))]),
      w\<lparr>ev_log := ev_log w @ (case incoming w of [] \<Rightarrow> [] | a # _ \<Rightarrow> a),
        incoming := tl (incoming w)\<rparr>)"
  by (simp add: event_runtime_def store_xread_def Let_def)

lemma ascending_after_read:
  "ids_ascending (ev_log w @ concat (incoming w)) \<Longrightarrow>
   ids_ascending ((ev_log w @ (case incoming w of [] \<Rightarrow> [] | a # _ \<Rightarrow> a)) @ concat (tl (incoming w)))"
  by (cases "incoming w") simp_all

lemma ascending_prefix: "ids_ascending (xs @ ys) \<Longrightarrow> ids_ascending xs"
  by (simp add: ids_ascending_def sorted_wrt_append)

lemma arrivals_beyond_cursor:
  fixes L arr :: "entry list"
  assumes "ids_ascending (L @ arr)" and "y = x \<or> y \<in> fst ` set L"
  shows "filter (\<lambda>e. x < fst e \<and> fst e \<le> y) (L @ arr) = filter (\<lambda>e. x < fst e \<and> fst e \<le> y) L"
proof -
  have "\<forall>a \<in> set arr. \<not> (x < fst a \<and> fst a \<le> y)"
  proof
    fix a assume a: "a \<in> set arr"
    from assms(2) show "\<not> (x < fst a \<and> fst a \<le> y)"
    proof
      assume "y = x" then show ?thesis by auto
    next
      assume "y \<in> fst ` set L"
      then obtain l where "l \<in> set L" "fst l = y" by auto
      with assms(1) a have "y < fst a" by (auto simp: ids_ascending_def sorted_wrt_append)
      then show ?thesis by auto
    qed
  qed
  then have "filter (\<lambda>e. x < fst e \<and> fst e \<le> y) arr = []" by (simp add: filter_empty_conv)
  then show ?thesis by simp
qed

lemma history_after_batch:
  fixes L :: "entry list"
  assumes asc: "ids_ascending L" and xy: "x \<le> y"
    and found: "filter (\<lambda>e. y < fst e) L = dn @ rest" and dn: "dn \<noteq> []"
  shows "filter (\<lambda>e. x < fst e \<and> fst e \<le> fst (last dn)) L =
         filter (\<lambda>e. x < fst e \<and> fst e \<le> y) L @ dn"
    and "y < fst (last dn)" and "last dn \<in> set L"
proof -
  from dn have "last dn \<in> set (dn @ rest)" by simp
  with found have mem: "last dn \<in> set (filter (\<lambda>e. y < fst e) L)" by simp
  then show yl: "y < fst (last dn)" and "last dn \<in> set L" by simp_all
  from asc have sf: "sorted_wrt (<) (map fst (dn @ rest))"
    unfolding ids_ascending_def found [symmetric] by (simp add: sorted_wrt_map sorted_wrt_filter)
  have "filter (\<lambda>e. y < fst e \<and> fst e \<le> fst (last dn)) L =
        filter (\<lambda>e. fst e \<le> fst (last dn)) (filter (\<lambda>e. y < fst e) L)"
    by (simp add: conj_commute)
  also have "\<dots> = dn" using filter_upto_last [OF sf dn] found by simp
  finally have mid: "filter (\<lambda>e. y < fst e \<and> fst e \<le> fst (last dn)) L = dn" .
  from filter_interval_split [OF xy less_imp_le [OF yl], of L] asc mid
  show "filter (\<lambda>e. x < fst e \<and> fst e \<le> fst (last dn)) L =
         filter (\<lambda>e. x < fst e \<and> fst e \<le> y) L @ dn"
    by (simp add: ids_ascending_def)
qed

lemma caught_up_after_batch:
  fixes L :: "entry list"
  assumes asc: "ids_ascending L" and found: "filter (\<lambda>e. y < fst e) L = dn" and dn: "dn \<noteq> []"
  shows "\<forall>e \<in> set L. fst e \<le> fst (last dn)"
proof
  fix e assume e: "e \<in> set L"
  from asc have sf: "sorted_wrt (<) (map fst dn)"
    unfolding ids_ascending_def found [symmetric] by (simp add: sorted_wrt_map sorted_wrt_filter)
  from dn found have "last dn \<in> set (filter (\<lambda>e. y < fst e) L)" by simp
  then have yl: "y < fst (last dn)" by simp
  show "fst e \<le> fst (last dn)"
  proof (cases "y < fst e")
    case True
    with e found have "e \<in> set dn" by auto
    from ascending_le_last [OF sf this] show ?thesis .
  next
    case False
    with yl show ?thesis by auto
  qed
qed

lemma consumeEvents_loop_store:
  assumes "consumeEvents_loop n (event_runtime parse) opts (At y) s = (r, c', s')"
    and "ids_ascending (ev_log (ev_world s) @ concat (incoming (ev_world s)))"
    and "x \<le> y" and "y = x \<or> y \<in> fst ` set (ev_log (ev_world s))"
    and "cursor_history (actions s) =
           G @ map fst (filter (\<lambda>e. x < fst e \<and> fst e \<le> y) (ev_log (ev_world s)))"
  shows "\<exists>y'. c' = At y' \<and> x \<le> y'
       \<and> cursor_history (actions s') =
           G @ map fst (filter (\<lambda>e. x < fst e \<and> fst e \<le> y') (ev_log (ev_world s')))
       \<and> ids_ascending (ev_log (ev_world s'))
       \<and> (r = None \<and> (0 < n \<or> (\<forall>e \<in> set (ev_log (ev_world s)). fst e \<le> y))
            \<longrightarrow> (\<forall>e \<in> set (ev_log (ev_world s')). fst e \<le> y'))"
  using assms
proof (induction n arbitrary: y s)
  case 0
  from "0.prems"(1) have "c' = At y" "s' = s" "r = None \<or> r = Some (Inr ())"
    by (auto split: if_splits)
  with "0.prems"(2-5) ascending_prefix show ?case by auto
next
  case (Suc n)
  let ?w = "ev_world s"
  let ?rt = "event_runtime parse :: (event_store, 'a) listener_runtime"
  show ?case
  proof (cases "ev_closing ?rt ?w")
    case True
    with Suc.prems(1) have "c' = At y" "s' = s" "r = Some (Inr ())" by auto
    with Suc.prems(2-5) ascending_prefix show ?thesis by auto
  next
    case False
    let ?L = "ev_log ?w @ (case incoming ?w of [] \<Rightarrow> [] | a # _ \<Rightarrow> a)"
    let ?found = "filter (\<lambda>e. y < fst e) ?L"
    let ?w1 = "?w\<lparr>ev_log := ?L, incoming := tl (incoming ?w)\<rparr>"
    let ?s1 = "s\<lparr>ev_world := ?w1\<rparr>"
    have asc1: "ids_ascending (ev_log (ev_world ?s1) @ concat (incoming (ev_world ?s1)))"
      using ascending_after_read [OF Suc.prems(2)] by simp
    then have ascL: "ids_ascending ?L" using ascending_prefix by simp
    have keep: "filter (\<lambda>e. x < fst e \<and> fst e \<le> y) ?L =
                filter (\<lambda>e. x < fst e \<and> fst e \<le> y) (ev_log ?w)"
      by (rule arrivals_beyond_cursor [OF ascL Suc.prems(4)])
    have mem1: "y = x \<or> y \<in> fst ` set (ev_log (ev_world ?s1))"
      using Suc.prems(4) by auto
    have hist1: "cursor_history (actions ?s1) =
           G @ map fst (filter (\<lambda>e. x < fst e \<and> fst e \<le> y) (ev_log (ev_world ?s1)))"
      using Suc.prems(5) keep by simp
    show ?thesis
    proof (cases "?found = []")
      case True
      have xr: "xread ?rt (blockingTimeout opts) (At y) ?w = (Inr None, ?w1)"
        using True by (subst store_xread_result) (simp only: simp_thms if_True)
      from Suc.prems(1) False
      have run: "consumeEvents_loop n ?rt opts (At y) ?s1 = (r, c', s')"
        by (simp add: xr)
      from True have "\<forall>e \<in> set ?L. \<not> y < fst e" by (simp only: filter_empty_conv)
      then have "\<forall>e \<in> set ?L. fst e \<le> y" by (simp only: not_less)
      then have "\<forall>e \<in> set (ev_log (ev_world ?s1)). fst e \<le> y" by simp
      with Suc.IH [OF run asc1 Suc.prems(3) mem1 hist1] show ?thesis by auto
    next
      case nonempty: False
      have xr: "xread ?rt (blockingTimeout opts) (At y) ?w = (Inr (Some [(ev_key ?w, ?found)]), ?w1)"
        using nonempty by (subst store_xread_result) (simp only: simp_thms if_False)
      obtain pr c1 s2 where p: "process_events ?rt ?found (At y) ?s1 = (pr, c1, s2)"
        by (cases "process_events ?rt ?found (At y) ?s1") auto
      from process_events_actions [OF p] nonempty
      obtain dn rest new where pe: "?found = dn @ rest" "pr = Inr () \<longrightarrow> rest = []" "dn \<noteq> []"
        "actions s2 = actions ?s1 @ new" "cursor_history new = map fst dn"
        "c1 = (if dn = [] then At y else At (fst (last dn)))" "ev_world s2 = ev_world ?s1"
        by blast
      let ?y1 = "fst (last dn)"
      from history_after_batch [OF ascL Suc.prems(3) pe(1) pe(3)]
      have split: "filter (\<lambda>e. x < fst e \<and> fst e \<le> ?y1) ?L =
                   filter (\<lambda>e. x < fst e \<and> fst e \<le> y) ?L @ dn"
        and yl: "y < ?y1" and lm: "last dn \<in> set ?L"
        by blast+
      have xy1: "x \<le> ?y1" using Suc.prems(3) yl by auto
      have mem2: "?y1 = x \<or> ?y1 \<in> fst ` set (ev_log (ev_world s2))"
        using lm pe(7) by auto
      have asc2: "ids_ascending (ev_log (ev_world s2) @ concat (incoming (ev_world s2)))"
        using asc1 pe(7) by simp
      have hist2: "cursor_history (actions s2) =
           G @ map fst (filter (\<lambda>e. x < fst e \<and> fst e \<le> ?y1) (ev_log (ev_world s2)))"
        using hist1 pe(4,5,7) split by (simp add: cursor_history_append)
      show ?thesis
      proof (cases pr)
        case (Inl err)
        with Suc.prems(1) False nonempty p pe(3,6)
        have "r = Some (Inl err)" "c' = At ?y1" "s' = s2"
          by (simp_all add: xr)
        with xy1 hist2 asc2 ascending_prefix show ?thesis by auto
      next
        case (Inr u)
        with Suc.prems(1) False nonempty p pe(3,6)
        have run: "consumeEvents_loop n ?rt opts (At ?y1) s2 = (r, c', s')"
          by (simp add: xr)
        from Inr pe(1,2) have "?found = dn" by simp
        from caught_up_after_batch [OF ascL this pe(3)] pe(7)
        have "\<forall>e \<in> set (ev_log (ev_world s2)). fst e \<le> ?y1" by simp
        with Suc.IH [OF run asc2 xy1 mem2 hist2] show ?thesis by auto
      qed
    qed
  qed
qed

lemma store_xread_dollar:
  "xread (event_runtime parse) b Dollar w =
     (Inr (if (case incoming w of [] \<Rightarrow> [] | a # _ \<Rightarrow> a) = [] then None
           else Some [(ev_key w, (case incoming w of [] \<Rightarrow> [] | a # _ \<Rightarrow> a))]),
      w\<lparr>ev_log := ev_log w @ (case incoming w of [] \<Rightarrow> [] | a # _ \<Rightarrow> a),
        incoming := tl (incoming w)\<rparr>)"
  by (simp add: event_runtime_def store_xread_def Let_def)

lemma id_predecessor:
  fixes l :: stream_id
  shows "l < (a, b) \<Longrightarrow> l \<le> (a, b - 1)"
  by (cases l) (auto simp: less_prod_def less_eq_prod_def)

lemma first_batch_history:
  fixes L :: "entry list"
  assumes asc: "ids_ascending (L @ dn @ rest)" and dn: "dn \<noteq> []"
  shows "filter (\<lambda>e. (fst (fst (hd dn)), snd (fst (hd dn)) - 1) < fst e \<and> fst e \<le> fst (last dn))
           (L @ dn @ rest) = dn"
    and "(fst (fst (hd dn)), snd (fst (hd dn)) - 1) \<le> fst (last dn)"
proof -
  let ?x = "(fst (fst (hd dn)), snd (fst (hd dn)) - 1)"
  have below: "?x < fst (hd dn)" by (cases "fst (hd dn)") (simp add: less_prod_def)
  from asc have "sorted_wrt (<) (map fst L @ map fst (dn @ rest))"
    by (simp add: ids_ascending_def)
  then have sd: "sorted_wrt (<) (map fst (dn @ rest))"
    and c0: "\<forall>a \<in> set (map fst L). \<forall>b \<in> set (map fst (dn @ rest)). a < b"
    unfolding sorted_wrt_append by blast+
  have cross: "\<forall>l \<in> set L. \<forall>e \<in> set (dn @ rest). fst l < fst e"
    using c0 unfolding set_map by blast
  from dn have hd_in: "hd dn \<in> set (dn @ rest)" by simp
  have "\<forall>l \<in> set L. \<not> ?x < fst l"
  proof
    fix l assume "l \<in> set L"
    with cross hd_in have "fst l < fst (hd dn)" by blast
    then have "fst l < (fst (fst (hd dn)), snd (fst (hd dn)))" by simp
    from id_predecessor [OF this] show "\<not> ?x < fst l" by (simp add: not_less)
  qed
  then have fL: "filter (\<lambda>e. ?x < fst e \<and> fst e \<le> fst (last dn)) L = []"
    by (simp add: filter_empty_conv)
  have "\<forall>e \<in> set (dn @ rest). ?x < fst e"
  proof
    fix e assume e: "e \<in> set (dn @ rest)"
    from dn obtain d ds where dd: "dn = d # ds" by (cases dn) auto
    with sd e have "fst (hd dn) \<le> fst e" by (auto simp: less_imp_le)
    with below show "?x < fst e" by (rule less_le_trans)
  qed
  then have "filter (\<lambda>e. ?x < fst e \<and> fst e \<le> fst (last dn)) (dn @ rest) =
             filter (\<lambda>e. fst e \<le> fst (last dn)) (dn @ rest)"
    by (intro filter_cong refl) simp
  also have "\<dots> = dn" by (rule filter_upto_last [OF sd dn])
  finally have fD: "filter (\<lambda>e. ?x < fst e \<and> fst e \<le> fst (last dn)) (dn @ rest) = dn" .
  from fL fD show "filter (\<lambda>e. ?x < fst e \<and> fst e \<le> fst (last dn)) (L @ dn @ rest) = dn"
    by simp
  from dn have "hd dn \<in> set dn" by simp
  from sd have "sorted_wrt (<) (map fst dn)" by (simp add: sorted_wrt_append)
  from ascending_le_last [OF this \<open>hd dn \<in> set dn\<close>] below
  show "?x \<le> fst (last dn)" by (auto intro: less_imp_le less_le_trans)
qed

lemma consumeEvents_loop_dollar:
  assumes "consumeEvents_loop n (event_runtime parse) opts Dollar s = (r, c', s')"
    and "ids_ascending (ev_log (ev_world s) @ concat (incoming (ev_world s)))"
  shows "ids_ascending (ev_log (ev_world s'))
       \<and> ((c' = Dollar \<and> cursor_history (actions s') = cursor_history (actions s))
          \<or> (\<exists>x y. c' = At y
                \<and> cursor_history (actions s') =
                    cursor_history (actions s)
                    @ map fst (filter (\<lambda>e. x < fst e \<and> fst e \<le> y) (ev_log (ev_world s')))))"
  using assms
proof (induction n arbitrary: s)
  case 0
  from "0.prems"(1) have "c' = Dollar" "s' = s" by (auto split: if_splits)
  with "0.prems"(2) ascending_prefix show ?case by auto
next
  case (Suc n)
  let ?w = "ev_world s"
  let ?rt = "event_runtime parse :: (event_store, 'a) listener_runtime"
  show ?case
  proof (cases "ev_closing ?rt ?w")
    case True
    with Suc.prems(1) have "c' = Dollar" "s' = s" by auto
    with Suc.prems(2) ascending_prefix show ?thesis by auto
  next
    case False
    let ?arr = "case incoming ?w of [] \<Rightarrow> [] | a # _ \<Rightarrow> a"
    let ?L = "ev_log ?w @ ?arr"
    let ?w1 = "?w\<lparr>ev_log := ?L, incoming := tl (incoming ?w)\<rparr>"
    let ?s1 = "s\<lparr>ev_world := ?w1\<rparr>"
    have asc1: "ids_ascending (ev_log (ev_world ?s1) @ concat (incoming (ev_world ?s1)))"
      using ascending_after_read [OF Suc.prems(2)] by simp
    then have ascL: "ids_ascending ?L" using ascending_prefix by simp
    show ?thesis
    proof (cases "?arr = []")
      case True
      have xr: "xread ?rt (blockingTimeout opts) Dollar ?w = (Inr None, ?w1)"
        using True by (subst store_xread_dollar) (simp only: simp_thms if_True)
      from Suc.prems(1) False
      have run: "consumeEvents_loop n ?rt opts Dollar ?s1 = (r, c', s')"
        by (simp add: xr)
      from Suc.IH [OF run asc1] show ?thesis by simp
    next
      case nonempty: False
      have xr: "xread ?rt (blockingTimeout opts) Dollar ?w = (Inr (Some [(ev_key ?w, ?arr)]), ?w1)"
        using nonempty by (subst store_xread_dollar) (simp only: simp_thms if_False)
      obtain pr c1 s2 where p: "process_events ?rt ?arr Dollar ?s1 = (pr, c1, s2)"
        by (cases "process_events ?rt ?arr Dollar ?s1") auto
      from process_events_actions [OF p] nonempty
      obtain dn rest new where pe: "?arr = dn @ rest" "pr = Inr () \<longrightarrow> rest = []" "dn \<noteq> []"
        "actions s2 = actions ?s1 @ new" "cursor_history new = map fst dn"
        "c1 = (if dn = [] then Dollar else At (fst (last dn)))" "ev_world s2 = ev_world ?s1"
        by blast
      let ?x = "(fst (fst (hd dn)), snd (fst (hd dn)) - 1)"
      let ?y1 = "fst (last dn)"
      from ascL pe(1) have ascD: "ids_ascending (ev_log ?w @ dn @ rest)" by simp
      from first_batch_history [OF ascD pe(3)] pe(1)
      have first: "filter (\<lambda>e. ?x < fst e \<and> fst e \<le> ?y1) ?L = dn" and xy1: "?x \<le> ?y1"
        by simp_all
      have lm: "last dn \<in> set ?L" using pe(1,3) by simp
      have mem2: "?y1 = ?x \<or> ?y1 \<in> fst ` set (ev_log (ev_world s2))"
        using lm pe(7) by auto
      have asc2: "ids_ascending (ev_log (ev_world s2) @ concat (incoming (ev_world s2)))"
        using asc1 pe(7) by simp
      have hist2: "cursor_history (actions s2) =
           cursor_history (actions s)
           @ map fst (filter (\<lambda>e. ?x < fst e \<and> fst e \<le> ?y1) (ev_log (ev_world s2)))"
        using pe(4,5,7) first by (simp add: cursor_history_append)
      show ?thesis
      proof (cases pr)
        case (Inl err)
        with Suc.prems(1) False p pe(3,6)
        have "c' = At ?y1" "s' = s2"
          by (simp_all add: xr)
        with hist2 asc2 ascending_prefix show ?thesis by blast
      next
        case (Inr u)
        with Suc.prems(1) False p pe(3,6)
        have run: "consumeEvents_loop n ?rt opts (At ?y1) s2 = (r, c', s')"
          by (simp add: xr)
        from consumeEvents_loop_store [OF run asc2 xy1 mem2 hist2] show ?thesis by blast
      qed
    qed
  qed
qed

text \<open>
  C6, as claimed, fails. The claim is for an instance. When the loop throws, \<open>run\<close> resets
  \<open>running\<close>, and a second \<open>run\<close> on the same instance starts \<open>consumeEvents\<close> again with
  \<open>id = opts.lastEventId\<close>: the cursor falls back and the records read by the first run
  are read and emitted again.
\<close>

theorem second_run_starts_again_from_lastEventId:
  "fst (run 1 (event_runtime parse_number) listener_options restarted_listener) =
     Some (Inl (SyntaxError ''undefined''))
   \<and> running (snd (run 1 (event_runtime parse_number) listener_options restarted_listener)) = False
   \<and> actions (snd (run 1 (event_runtime parse_number) listener_options restarted_listener)) =
       [SetCursor (1699999999500, 0),
        Emit (Str ''active'') [ArgObj [(''jobId'', Str ''7'')], ArgId (1699999999500, 0)],
        Emit (Str ''active:7'') [ArgObj [(''jobId'', Str ''7'')], ArgId (1699999999500, 0)],
        SetCursor (1699999999600, 0)]
   \<and> actions (snd (run 1 (event_runtime parse_number) listener_options
        (snd (run 1 (event_runtime parse_number) listener_options restarted_listener)))) =
       [SetCursor (1699999999500, 0),
        Emit (Str ''active'') [ArgObj [(''jobId'', Str ''7'')], ArgId (1699999999500, 0)],
        Emit (Str ''active:7'') [ArgObj [(''jobId'', Str ''7'')], ArgId (1699999999500, 0)],
        SetCursor (1699999999600, 0),
        SetCursor (1699999999500, 0),
        Emit (Str ''active'') [ArgObj [(''jobId'', Str ''7'')], ArgId (1699999999500, 0)],
        Emit (Str ''active:7'') [ArgObj [(''jobId'', Str ''7'')], ArgId (1699999999500, 0)],
        SetCursor (1699999999600, 0)]
   \<and> cursor_history (actions (snd (run 1 (event_runtime parse_number) listener_options
        (snd (run 1 (event_runtime parse_number) listener_options restarted_listener))))) =
       [(1699999999500, 0), (1699999999600, 0), (1699999999500, 0), (1699999999600, 0)]"
  by (simp add: run_def run_consume_def consumeEvents_def decode_def parse_prop_def dispatch_def
        emit_def get_prop_def to_args_def js_text_def truthy_def array2obj_def obj_get_def
        to_text_def event_runtime_def store_xread_def Let_def parse_number_def digit_value_def
        listener_options_def restarted_listener_def faulty_event_store_def)

text \<open>
  C6, amended. Within one call of \<open>consumeEvents\<close> (one run of the loop, for any number of
  iterations and however it ends) on a log whose ids ascend: the ids the cursor is set to
  increase strictly, so no record at or behind the cursor is taken again, and every emission
  carries the id the cursor was set to just before. If \<open>lastEventId = x\<close>, these ids all
  lie above \<open>x\<close>; they are the ids of all records of the log above \<open>x\<close> up to the cursor,
  in log order, none skipped; and while the loop is running, after each read the cursor has
  covered every record of the log above \<open>x\<close>.
\<close>

theorem cursor_strictly_increasing:
  assumes "ids_ascending (ev_log (ev_world s) @ concat (incoming (ev_world s)))"
    and "consumeEvents n (event_runtime parse) opts s = (r, c, s')"
  shows "\<exists>new. actions s' = actions s @ new
       \<and> sorted_wrt (<) (cursor_history new)
       \<and> emits_carry_cursor None new
       \<and> (\<forall>x. lastEventId opts = Some x \<longrightarrow>
            (\<exists>y. c = At y
               \<and> (\<forall>i \<in> set (cursor_history new). x < i)
               \<and> cursor_history new =
                   map fst (filter (\<lambda>e. x < fst e \<and> fst e \<le> y) (ev_log (ev_world s')))
               \<and> (r = None \<and> 0 < n \<longrightarrow>
                    cursor_history new =
                      map fst (filter (\<lambda>e. x < fst e) (ev_log (ev_world s'))))))"
proof (cases "lastEventId opts")
  case None
  with assms(2) have run: "consumeEvents_loop n (event_runtime parse) opts Dollar s = (r, c, s')"
    by (simp add: consumeEvents_def)
  from consumeEvents_loop_actions [OF run]
  obtain new where new: "actions s' = actions s @ new" "\<forall>c0. emits_carry_cursor c0 new"
    by blast
  have d: "ids_ascending (ev_log (ev_world s'))
       \<and> ((c = Dollar \<and> cursor_history (actions s') = cursor_history (actions s))
          \<or> (\<exists>x y. c = At y
                \<and> cursor_history (actions s') =
                    cursor_history (actions s)
                    @ map fst (filter (\<lambda>e. x < fst e \<and> fst e \<le> y) (ev_log (ev_world s')))))"
    by (rule consumeEvents_loop_dollar [OF run assms(1)])
  then have asc: "ids_ascending (ev_log (ev_world s'))" by (rule conjunct1)
  have srt: "\<And>x y. sorted_wrt (<)
       (map fst (filter (\<lambda>e. x < fst e \<and> fst e \<le> y) (ev_log (ev_world s'))))"
    using asc by (simp add: ids_ascending_def sorted_wrt_map sorted_wrt_filter)
  from d have "(c = Dollar \<and> cursor_history (actions s') = cursor_history (actions s))
          \<or> (\<exists>x y. c = At y
                \<and> cursor_history (actions s') =
                    cursor_history (actions s)
                    @ map fst (filter (\<lambda>e. x < fst e \<and> fst e \<le> y) (ev_log (ev_world s'))))"
    by (rule conjunct2)
  then have sorted: "sorted_wrt (<) (cursor_history new)"
  proof
    assume "c = Dollar \<and> cursor_history (actions s') = cursor_history (actions s)"
    with new(1) have "cursor_history new = []" by (simp add: cursor_history_append)
    then show ?thesis by simp
  next
    assume "\<exists>x y. c = At y
                \<and> cursor_history (actions s') =
                    cursor_history (actions s)
                    @ map fst (filter (\<lambda>e. x < fst e \<and> fst e \<le> y) (ev_log (ev_world s')))"
    then obtain x y where "cursor_history (actions s') =
                    cursor_history (actions s)
                    @ map fst (filter (\<lambda>e. x < fst e \<and> fst e \<le> y) (ev_log (ev_world s')))"
      by blast
    with new(1) have "cursor_history new =
        map fst (filter (\<lambda>e. x < fst e \<and> fst e \<le> y) (ev_log (ev_world s')))"
      by (simp add: cursor_history_append)
    with srt [of x y] show ?thesis by simp
  qed
  show ?thesis
  proof (intro exI [of _ new] conjI)
    show "actions s' = actions s @ new" by (rule new(1))
    show "sorted_wrt (<) (cursor_history new)" by (rule sorted)
    show "emits_carry_cursor None new" using new(2) by simp
    show "\<forall>x. lastEventId opts = Some x \<longrightarrow>
            (\<exists>y. c = At y
               \<and> (\<forall>i \<in> set (cursor_history new). x < i)
               \<and> cursor_history new =
                   map fst (filter (\<lambda>e. x < fst e \<and> fst e \<le> y) (ev_log (ev_world s')))
               \<and> (r = None \<and> 0 < n \<longrightarrow>
                    cursor_history new =
                      map fst (filter (\<lambda>e. x < fst e) (ev_log (ev_world s')))))"
      using None by simp
  qed
next
  case (Some x)
  with assms(2) have run: "consumeEvents_loop n (event_runtime parse) opts (At x) s = (r, c, s')"
    by (simp add: consumeEvents_def)
  from consumeEvents_loop_actions [OF run]
  obtain new where new: "actions s' = actions s @ new" "\<forall>c0. emits_carry_cursor c0 new"
    by blast
  have h0: "cursor_history (actions s) =
     cursor_history (actions s)
     @ map fst (filter (\<lambda>e. x < fst e \<and> fst e \<le> x) (ev_log (ev_world s)))"
    by (auto simp: filter_empty_conv)
  from consumeEvents_loop_store [OF run assms(1) order_refl _ h0]
  obtain y where y: "c = At y" "x \<le> y"
    "cursor_history (actions s') =
       cursor_history (actions s)
       @ map fst (filter (\<lambda>e. x < fst e \<and> fst e \<le> y) (ev_log (ev_world s')))"
    "ids_ascending (ev_log (ev_world s'))"
    "r = None \<and> 0 < n \<longrightarrow> (\<forall>e \<in> set (ev_log (ev_world s')). fst e \<le> y)"
    by auto
  from y(3) new(1) have hist: "cursor_history new =
       map fst (filter (\<lambda>e. x < fst e \<and> fst e \<le> y) (ev_log (ev_world s')))"
    by (simp add: cursor_history_append)
  from y(4) have "sorted_wrt (<)
       (map fst (filter (\<lambda>e. x < fst e \<and> fst e \<le> y) (ev_log (ev_world s'))))"
    by (simp add: ids_ascending_def sorted_wrt_map sorted_wrt_filter)
  with hist have sorted: "sorted_wrt (<) (cursor_history new)" by simp
  have above: "\<forall>i \<in> set (cursor_history new). x < i"
    unfolding hist by simp
  have full: "r = None \<and> 0 < n \<longrightarrow>
            cursor_history new = map fst (filter (\<lambda>e. x < fst e) (ev_log (ev_world s')))"
  proof
    assume "r = None \<and> 0 < n"
    with y(5) have "\<forall>e \<in> set (ev_log (ev_world s')). fst e \<le> y" by simp
    then have "filter (\<lambda>e. x < fst e \<and> fst e \<le> y) (ev_log (ev_world s')) =
               filter (\<lambda>e. x < fst e) (ev_log (ev_world s'))"
      by (intro filter_cong refl) simp
    with hist show "cursor_history new = map fst (filter (\<lambda>e. x < fst e) (ev_log (ev_world s')))"
      by simp
  qed
  show ?thesis
  proof (intro exI [of _ new] conjI)
    show "actions s' = actions s @ new" by (rule new(1))
    show "sorted_wrt (<) (cursor_history new)" by (rule sorted)
    show "emits_carry_cursor None new" using new(2) by simp
    show "\<forall>x. lastEventId opts = Some x \<longrightarrow>
            (\<exists>y. c = At y
               \<and> (\<forall>i \<in> set (cursor_history new). x < i)
               \<and> cursor_history new =
                   map fst (filter (\<lambda>e. x < fst e \<and> fst e \<le> y) (ev_log (ev_world s')))
               \<and> (r = None \<and> 0 < n \<longrightarrow>
                    cursor_history new =
                      map fst (filter (\<lambda>e. x < fst e) (ev_log (ev_world s')))))"
    proof (intro allI impI)
      fix x' assume "lastEventId opts = Some x'"
      with Some have eq: "x' = x" by simp
      show "\<exists>y. c = At y
               \<and> (\<forall>i \<in> set (cursor_history new). x' < i)
               \<and> cursor_history new =
                   map fst (filter (\<lambda>e. x' < fst e \<and> fst e \<le> y) (ev_log (ev_world s')))
               \<and> (r = None \<and> 0 < n \<longrightarrow>
                    cursor_history new =
                      map fst (filter (\<lambda>e. x' < fst e) (ev_log (ev_world s'))))"
        unfolding eq using y(1) above hist full by blast
    qed
  qed
qed

theorem cursor_strictly_increasing_witness:
  "ids_ascending (ev_log (ev_world idle_listener) @ concat (incoming (ev_world idle_listener)))
   \<and> lastEventId listener_options = Some (1699999999000, 0)
   \<and> consumeEvents 3 (event_runtime parse_number) listener_options idle_listener =
       (None, At (1699999999700, 0),
        \<lparr>running = False,
         ev_world = event_log_store
           \<lparr>ev_log := ev_log event_log_store @ concat (incoming event_log_store),
            incoming := []\<rparr>,
         actions =
           [SetCursor (1699999999500, 0),
            Emit (Str ''completed'')
              [ArgObj [(''jobId'', Str ''7''), (''returnvalue'', Json 42)],
               ArgId (1699999999500, 0)],
            Emit (Str ''completed:7'')
              [ArgObj [(''jobId'', Str ''7''), (''returnvalue'', Json 42)],
               ArgId (1699999999500, 0)],
            SetCursor (1699999999700, 0),
            Emit (Str ''drained'') [ArgId (1699999999700, 0)]]\<rparr>)"
  using cursor_strictly_increasing [of idle_listener 3 parse_number listener_options
      None "At (1699999999700, 0)"
      "\<lparr>running = False,
         ev_world = event_log_store
           \<lparr>ev_log := ev_log event_log_store @ concat (incoming event_log_store),
            incoming := []\<rparr>,
         actions =
           [SetCursor (1699999999500, 0),
            Emit (Str ''completed'')
              [ArgObj [(''jobId'', Str ''7''), (''returnvalue'', Json 42)],
               ArgId (1699999999500, 0)],
            Emit (Str ''completed:7'')
              [ArgObj [(''jobId'', Str ''7''), (''returnvalue'', Json 42)],
               ArgId (1699999999500, 0)],
            SetCursor (1699999999700, 0),
            Emit (Str ''drained'') [ArgId (1699999999700, 0)]]\<rparr>"]
  by (simp add: decode_def parse_prop_def dispatch_def emit_def get_prop_def to_args_def
        js_text_def truthy_def array2obj_def obj_get_def to_text_def event_runtime_def
        store_xread_def Let_def parse_number_def digit_value_def
        listener_options_def idle_listener_def event_log_store_def ids_ascending_def
        consumeEvents_def eval_nat_numeral)

end
